theory Spec2Isabelle
  imports Main "HOL-Library.AList"
begin

section \<open>Constants of the driver\<close>

text \<open>
  \<^verbatim>\<open>LOCK_TIME = 10000\<close>, \<^verbatim>\<open>BLOCK_SIZE = 20\<close>, \<^verbatim>\<open>HEAT_UP_TIME = 30\<close>.
  \<open>LOCK_TIME\<close> is the argument of \<^verbatim>\<open>EXPIRE\<close> and \<open>HEAT_UP_TIME\<close> the argument of
  \<^verbatim>\<open>time.sleep\<close>: both are seconds. The clock of the model counts milliseconds.
\<close>

definition LOCK_TIME :: nat where
  "LOCK_TIME = 10000"

definition BLOCK_SIZE :: nat where
  "BLOCK_SIZE = 20"

definition HEAT_UP_TIME :: nat where
  "HEAT_UP_TIME = 30"

section \<open>Strings of Python\<close>

text \<open>\<^verbatim>\<open>str(n)\<close> of an integer: its decimal digits, with a leading minus sign.\<close>

definition digit_char :: "nat \<Rightarrow> char" where
  "digit_char d = ''0123456789'' ! d"

fun str_nat :: "nat \<Rightarrow> string" where
  "str_nat n = (if n < 10 then [digit_char n] else str_nat (n div 10) @ [digit_char (n mod 10)])"

declare str_nat.simps [simp del]

definition str_int :: "int \<Rightarrow> string" where
  "str_int i = (if i < 0 then CHR ''-'' # str_nat (nat (- i)) else str_nat (nat i))"

text \<open>
  \<^verbatim>\<open>str.strip()\<close> removes the white space of Python at both ends. Among the
  characters of ASCII these are the codes 9 to 13, 28 to 32.
\<close>

definition py_space :: "char \<Rightarrow> bool" where
  "py_space c = (let n = (of_char c :: nat) in (9 \<le> n \<and> n \<le> 13) \<or> (28 \<le> n \<and> n \<le> 32))"

definition strip :: "string \<Rightarrow> string" where
  "strip s = rev (dropWhile py_space (rev (dropWhile py_space s)))"

section \<open>The shared store and the world of one worker\<close>

text \<open>
  The store is Redis as the driver uses it. The hashes live under the keys
  \<^verbatim>\<open>INSTANCE:...\<close> and \<^verbatim>\<open>EVALUATION:...\<close>: a hash is the list of its (field, value)
  pairs, and an absent hash is the empty list (\<^verbatim>\<open>HLEN\<close> of an absent key is 0). The
  locks are string keys \<^verbatim>\<open>LOCK:...\<close>, each with its value and the instant (in
  milliseconds) at which it expires, if any. An expired key is absent for every
  command: the server drops a key once the clock is strictly past that instant.

  The world of a worker is the store, the clock, the connection faults the
  environment is going to inject, the argument vectors of the subprocesses spawned so
  far and the lines printed so far. The clock moves where the source sleeps; a round
  trip to the store and a run of the generator take no time.
\<close>

datatype line = GotLock string nat | Progress "int list" nat int

record world =
  hashes :: "string \<Rightarrow> (string \<times> string) list"
  locks :: "string \<Rightarrow> (string \<times> nat option) option"
  clock :: nat
  faults :: "string option list"
  spawned :: "string list list"
  printed :: "line list"

definition live :: "world \<Rightarrow> string \<Rightarrow> bool" where
  "live w k = (case locks w k of
     None \<Rightarrow> False
   | Some (v, None) \<Rightarrow> True
   | Some (v, Some e) \<Rightarrow> clock w \<le> e)"

definition sleep :: "nat \<Rightarrow> world \<Rightarrow> world" where
  "sleep ms w = w\<lparr>clock := clock w + ms\<rparr>"

text \<open>\<^verbatim>\<open>time.time_ns()\<close>, read from the clock of the model.\<close>

definition time_ns :: "world \<Rightarrow> nat" where
  "time_ns w = clock w * 1000000"

subsection \<open>Commands on hashes\<close>

definition hlen :: "world \<Rightarrow> string \<Rightarrow> nat" where
  "hlen w k = length (hashes w k)"

definition hexists :: "world \<Rightarrow> string \<Rightarrow> string \<Rightarrow> bool" where
  "hexists w k f = (f \<in> fst ` set (hashes w k))"

definition hset :: "world \<Rightarrow> string \<Rightarrow> string \<Rightarrow> string \<Rightarrow> world" where
  "hset w k f v = w\<lparr>hashes := (hashes w)(k := AList.update f v (hashes w k))\<rparr>"

subsection \<open>Commands on string keys\<close>

text \<open>
  \<^verbatim>\<open>SETNX key value\<close> creates the key, with no expiry, if it is absent;
  \<^verbatim>\<open>EXPIRE key seconds\<close> sets the expiry of a key that exists;
  \<^verbatim>\<open>DEL key\<close> removes it. Each returns whether it changed something.
\<close>

definition setnx :: "world \<Rightarrow> string \<Rightarrow> string \<Rightarrow> bool \<times> world" where
  "setnx w k v = (if live w k then (False, w)
                  else (True, w\<lparr>locks := (locks w)(k \<mapsto> (v, None))\<rparr>))"

definition expire :: "world \<Rightarrow> string \<Rightarrow> nat \<Rightarrow> bool \<times> world" where
  "expire w k secs = (if live w k
     then (True, w\<lparr>locks := (locks w)(k \<mapsto> (fst (the (locks w k)), Some (clock w + secs * 1000)))\<rparr>)
     else (False, w))"

definition delete :: "world \<Rightarrow> string \<Rightarrow> bool \<times> world" where
  "delete w k = (live w k, w\<lparr>locks := (locks w)(k := None)\<rparr>)"

subsection \<open>Keys\<close>

text \<open>
  A configuration is the tuple \<^verbatim>\<open>(num_pois, num_sensors, num_sinks, area_side,
  covg_radius, comm_radius)\<close>. The keys are the f-strings of the source.
\<close>

record config =
  num_pois :: int
  num_sensors :: int
  num_sinks :: int
  area_side :: int
  covg_radius :: int
  comm_radius :: int

definition config_suffix :: "config \<Rightarrow> string" where
  "config_suffix c =
     str_int (num_pois c) @ '':'' @ str_int (num_sensors c) @ '':'' @ str_int (num_sinks c) @ '':'' @
     str_int (area_side c) @ '':'' @ str_int (covg_radius c) @ '':'' @ str_int (comm_radius c)"

definition instance_key :: "config \<Rightarrow> string" where
  "instance_key c = ''INSTANCE:'' @ config_suffix c"

definition evaluation_key :: "config \<Rightarrow> string" where
  "evaluation_key c = ''EVALUATION:'' @ config_suffix c"

definition lock_key :: "nat \<Rightarrow> string \<Rightarrow> string" where
  "lock_key block ikey = ''LOCK:BLOCK'' @ str_nat block @ '':'' @ ikey"

section \<open>Claiming a block\<close>

text \<open>
  One attempt is the pipeline \<^verbatim>\<open>setnx(lock, str(time.time_ns())).expire(lock, LOCK_TIME)\<close>
  run as one transaction: the server runs both commands with nothing in between, and
  the driver keeps the answer of \<^verbatim>\<open>SETNX\<close> as \<^verbatim>\<open>has_lock\<close>.
\<close>

definition claim_block :: "world \<Rightarrow> string \<Rightarrow> bool \<times> world" where
  "claim_block w lock =
     (let (has_lock, w1) = setnx w lock (str_nat (time_ns w));
          (_, w2) = expire w1 lock LOCK_TIME
      in (has_lock, w2))"

text \<open>
  \<^verbatim>\<open>range(0, target_instances, BLOCK_SIZE)\<close>: the offsets from \<open>lo\<close> in steps of
  \<open>BLOCK_SIZE\<close> while they are below \<open>hi\<close>.
\<close>

function block_range :: "nat \<Rightarrow> nat \<Rightarrow> nat list" where
  "block_range lo hi = (if lo < hi then lo # block_range (lo + BLOCK_SIZE) hi else [])"
  by pat_completeness auto
termination
  by (relation "measure (\<lambda>(lo, hi). hi - lo)") (auto simp: BLOCK_SIZE_def)

declare block_range.simps [simp del]

text \<open>
  The loop over the blocks. The pair carried along is \<^verbatim>\<open>(has_lock, block)\<close> as the
  loop leaves them: \<^verbatim>\<open>has_lock\<close> is unbound (\<open>None\<close>) until the first attempt. A
  successful attempt leaves the loop (\<^verbatim>\<open>break\<close>); a failed one sleeps 0.05 seconds.
\<close>

fun scan_blocks :: "string \<Rightarrow> nat list \<Rightarrow> bool option \<times> nat \<Rightarrow> world \<Rightarrow> (bool option \<times> nat) \<times> world" where
  "scan_blocks ikey [] acc w = (acc, w)"
| "scan_blocks ikey (block # rest) acc w =
     (let (has_lock, w1) = claim_block w (lock_key block ikey)
      in if has_lock then ((Some True, block), w1)
         else scan_blocks ikey rest (Some False, block) (sleep 50 w1))"

section \<open>The generator subprocess\<close>

text \<open>
  The generator is a black box: from its argument vector it yields the lines of its
  standard output (each line with its terminator, as \<^verbatim>\<open>readline\<close> hands it over) and
  an exit status.
\<close>

record process =
  stdout_lines :: "string list"
  exit_status :: int

type_synonym generator = "string list \<Rightarrow> process"

datatype exn =
    ConnectionError string
  | UnicodeDecodeError string
  | ValueError string
  | UnboundLocalError string
  | IndexError string

fun exn_str :: "exn \<Rightarrow> string" where
  "exn_str (ConnectionError m) = m"
| "exn_str (UnicodeDecodeError m) = m"
| "exn_str (ValueError m) = m"
| "exn_str (UnboundLocalError m) = m"
| "exn_str (IndexError m) = m"

text \<open>\<^verbatim>\<open>limit = 1024 * 512\<close>: the longest line \<^verbatim>\<open>readline\<close> accepts.\<close>

definition READ_LIMIT :: nat where
  "READ_LIMIT = 1024 * 512"

text \<open>
  \<^verbatim>\<open>await proc.stdout.readline()\<close>: the next line, or the empty byte string at the end
  of the stream; a line longer than the limit raises \<^verbatim>\<open>ValueError\<close>.
\<close>

definition readline :: "string list \<Rightarrow> (exn + string) \<times> string list" where
  "readline ls = (case ls of
     [] \<Rightarrow> (Inr [], [])
   | l # rest \<Rightarrow> if READ_LIMIT < length (takeWhile (\<lambda>c. c \<noteq> CHR 0x0A) l)
       then (Inl (ValueError ''Separator is found, but chunk is longer than limit''), rest)
       else (Inr l, rest))"

text \<open>\<^verbatim>\<open>.decode('ascii')\<close> raises on a byte outside ASCII.\<close>

definition decode_ascii :: "string \<Rightarrow> exn + string" where
  "decode_ascii bs = (if list_all (\<lambda>c. (of_char c :: nat) < 128) bs then Inr bs
     else Inl (UnicodeDecodeError ''ordinal not in range(128)''))"

definition read_payload :: "string list \<Rightarrow> (exn + string) \<times> string list" where
  "read_payload ls = (case readline ls of
     (Inl e, rest) \<Rightarrow> (Inl e, rest)
   | (Inr raw, rest) \<Rightarrow> (case decode_ascii raw of
        Inl e \<Rightarrow> (Inl e, rest)
      | Inr txt \<Rightarrow> (Inr (strip txt), rest)))"

text \<open>
  The loop \<^verbatim>\<open>for num, expected_seed in enumerate(to_generate)\<close>: two lines are read, and
  the two \<^verbatim>\<open>HSET\<close> commands run as one transaction. What was written before an
  exception stays in the store.
\<close>

fun read_pairs :: "string \<Rightarrow> string \<Rightarrow> int list \<Rightarrow> string list \<Rightarrow> world \<Rightarrow> (exn + string list) \<times> world" where
  "read_pairs ikey ekey [] ls w = (Inr ls, w)"
| "read_pairs ikey ekey (expected_seed # rest) ls w =
     (case read_payload ls of
        (Inl e, ls1) \<Rightarrow> (Inl e, w)
      | (Inr out_instance, ls1) \<Rightarrow>
          (case read_payload ls1 of
             (Inl e, ls2) \<Rightarrow> (Inl e, w)
           | (Inr out_evaluation, ls2) \<Rightarrow>
               read_pairs ikey ekey rest ls2
                 (hset (hset w ikey (str_int expected_seed) out_instance)
                    ekey (str_int expected_seed) out_evaluation)))"

section \<open>\<^verbatim>\<open>generate_instances\<close>\<close>

text \<open>
  The environment can break the connection to the store: the first round trip of a
  call (\<^verbatim>\<open>redis.hlen\<close>; \<^verbatim>\<open>from_url\<close> connects lazily) takes the next entry of
  \<open>faults\<close>, and raises when it is a message.
\<close>

definition connect :: "world \<Rightarrow> exn option \<times> world" where
  "connect w = (case faults w of
     [] \<Rightarrow> (None, w)
   | None # fs \<Rightarrow> (None, w\<lparr>faults := fs\<rparr>)
   | Some m # fs \<Rightarrow> (Some (ConnectionError m), w\<lparr>faults := fs\<rparr>))"

text \<open>
  The list comprehension
  \<^verbatim>\<open>[rseed for rseed in random_seeds[max(block, existing_instances):target_instances]
     if not (await redis.hexists(instance_key, rseed))]\<close>,
  reached with \<open>0 < target_instances\<close> only: the slice is between two indices that
  are not negative.
\<close>

definition to_generate :: "world \<Rightarrow> string \<Rightarrow> int list \<Rightarrow> nat \<Rightarrow> nat \<Rightarrow> nat \<Rightarrow> int list" where
  "to_generate w ikey random_seeds block existing_instances target_instances =
     filter (\<lambda>rseed. \<not> hexists w ikey (str_int rseed))
       (drop (max block existing_instances) (take target_instances random_seeds))"

definition generator_args :: "int \<Rightarrow> int \<Rightarrow> config \<Rightarrow> int list \<Rightarrow> string list" where
  "generator_args k_range m_range c seeds =
     map str_int ([k_range, m_range, num_pois c, num_sensors c, num_sinks c, area_side c,
                   covg_radius c, comm_radius c] @ seeds)"

definition generate_instances ::
  "generator \<Rightarrow> int list \<Rightarrow> int \<Rightarrow> int \<Rightarrow> config \<Rightarrow> int \<Rightarrow> world \<Rightarrow> (exn + nat \<times> int) \<times> world" where
  "generate_instances gen random_seeds k_range m_range c target_instances w =
     (case connect w of
        (Some e, w0) \<Rightarrow> (Inl e, w0)
      | (None, w0) \<Rightarrow>
     let ikey = instance_key c;
         ekey = evaluation_key c;
         existing_instances = hlen w0 ikey
     in if target_instances \<le> int existing_instances then (Inr (existing_instances, 0), w0)
        else
          (case scan_blocks ikey (block_range 0 (nat target_instances)) (None, 0) w0 of
             ((None, block), w1) \<Rightarrow>
               (Inl (UnboundLocalError ''local variable has_lock referenced before assignment''), w1)
           | ((Some False, block), w1) \<Rightarrow> (Inr (existing_instances, - 1), w1)
           | ((Some True, block), w1) \<Rightarrow>
               let w2 = w1\<lparr>printed := printed w1 @ [GotLock ikey block]\<rparr>;
                   seeds = to_generate w2 ikey random_seeds block existing_instances (nat target_instances)
               in if length seeds = 0 then (Inr (existing_instances, - 2), w2)
                  else
                    let argv = generator_args k_range m_range c seeds;
                        proc = gen argv;
                        w3 = w2\<lparr>spawned := spawned w2 @ [argv]\<rparr>
                    in (case read_pairs ikey ekey seeds (stdout_lines proc) w3 of
                          (Inl e, w4) \<Rightarrow> (Inl e, w4)
                        | (Inr _, w4) \<Rightarrow>
                            let result = (hlen w4 ikey, int (length seeds));
                                (_, w5) = delete w4 (lock_key block ikey)
                            in (Inr result, w5))))"

definition empty_world :: world where
  "empty_world = \<lparr>hashes = (\<lambda>k. []), locks = (\<lambda>k. None), clock = 0, faults = [],
                   spawned = [], printed = []\<rparr>"

section \<open>The convergence loop\<close>

text \<open>
  \<^verbatim>\<open>{'connection', 'reset', 'peer'}.issubset(str(exp).lower().strip())\<close>: the argument
  of \<^verbatim>\<open>issubset\<close> is a string, which Python iterates character by character, so the
  test asks whether each of the three words is one of the characters of the message.
\<close>

definition lower_char :: "char \<Rightarrow> char" where
  "lower_char c = (let n = (of_char c :: nat) in if 65 \<le> n \<and> n \<le> 90 then char_of (n + 32) else c)"

definition is_transient :: "string \<Rightarrow> bool" where
  "is_transient msg =
     list_all (\<lambda>word. word \<in> set (map (\<lambda>c. [c]) (strip (map lower_char msg))))
       [''connection'', ''reset'', ''peer'']"

text \<open>
  The target of the \<^verbatim>\<open>for\<close> statement unpacks each tuple of \<^verbatim>\<open>configs_to_run\<close> into six
  names; a tuple of another length raises \<^verbatim>\<open>ValueError\<close> there, outside the inner
  \<^verbatim>\<open>try\<close>.
\<close>

fun unpack_config :: "int list \<Rightarrow> exn + config" where
  "unpack_config [a, b, c, d, e, f] =
     Inr \<lparr>num_pois = a, num_sensors = b, num_sinks = c, area_side = d, covg_radius = e, comm_radius = f\<rparr>"
| "unpack_config t =
     Inl (ValueError (if length t < 6 then ''not enough values to unpack'' else ''too many values to unpack''))"

text \<open>
  One pass over \<^verbatim>\<open>configs_to_run\<close>. An exception of \<^verbatim>\<open>generate_instances\<close> that the
  test above accepts is followed by \<^verbatim>\<open>time.sleep(10)\<close> and the next configuration;
  any other one leaves the pass (\<^verbatim>\<open>raise exp\<close>).
\<close>

fun sweep ::
  "generator \<Rightarrow> int list \<Rightarrow> int \<Rightarrow> int \<Rightarrow> int \<Rightarrow> int list list \<Rightarrow> bool \<Rightarrow> world \<Rightarrow> (exn + bool) \<times> world" where
  "sweep gen random_seeds k_range m_range target_instances [] run_again w = (Inr run_again, w)"
| "sweep gen random_seeds k_range m_range target_instances (t # rest) run_again w =
     (case unpack_config t of
        Inl e \<Rightarrow> (Inl e, w)
      | Inr c \<Rightarrow>
          (case generate_instances gen random_seeds k_range m_range c target_instances w of
             (Inr (previous_work, current_work), w1) \<Rightarrow>
               sweep gen random_seeds k_range m_range target_instances rest
                 (run_again \<or> current_work \<noteq> 0)
                 (w1\<lparr>printed := printed w1 @ [Progress t previous_work current_work]\<rparr>)
           | (Inl e, w1) \<Rightarrow>
               if is_transient (exn_str e)
               then sweep gen random_seeds k_range m_range target_instances rest run_again (sleep 10000 w1)
               else (Inl e, w1)))"

text \<open>
  \<^verbatim>\<open>while run_again\<close>: the loop may run forever, and then its value is \<open>None\<close>. It ends
  with \<open>Some (None, w)\<close> when a pass leaves \<^verbatim>\<open>run_again\<close> false, and with
  \<open>Some (Some e, w)\<close> when the exception \<open>e\<close> leaves it.
\<close>

partial_function (option) convergence_loop ::
  "generator \<Rightarrow> int list \<Rightarrow> int \<Rightarrow> int \<Rightarrow> int \<Rightarrow> int list list \<Rightarrow> world \<Rightarrow> (exn option \<times> world) option" where
  "convergence_loop gen random_seeds k_range m_range target_instances configs_to_run w =
     (case sweep gen random_seeds k_range m_range target_instances configs_to_run False w of
        (Inl e, w1) \<Rightarrow> Some (Some e, w1)
      | (Inr run_again, w1) \<Rightarrow>
          if run_again
          then convergence_loop gen random_seeds k_range m_range target_instances configs_to_run w1
          else Some (None, w1))"

declare convergence_loop.simps [code]

section \<open>Loading the seeds and the configurations\<close>

text \<open>
  \<^verbatim>\<open>int(s)\<close> on a string of ASCII: white space around the literal is dropped, a sign may
  come first, and the digits may be grouped by single underscores.
\<close>

definition is_digit :: "char \<Rightarrow> bool" where
  "is_digit c = (let n = (of_char c :: nat) in 48 \<le> n \<and> n \<le> 57)"

definition digit_val :: "char \<Rightarrow> nat" where
  "digit_val c = of_char c - 48"

definition digits_val :: "string \<Rightarrow> nat" where
  "digits_val s = foldl (\<lambda>a c. 10 * a + digit_val c) 0 s"

fun no_double_underscore :: "string \<Rightarrow> bool" where
  "no_double_underscore (a # b # rest) =
     (\<not> (a = CHR ''_'' \<and> b = CHR ''_'') \<and> no_double_underscore (b # rest))"
| "no_double_underscore s = True"

definition valid_literal :: "string \<Rightarrow> bool" where
  "valid_literal body =
     (body \<noteq> [] \<and> is_digit (hd body) \<and> is_digit (last body) \<and>
      list_all (\<lambda>c. is_digit c \<or> c = CHR ''_'') body \<and> no_double_underscore body)"

definition py_int :: "string \<Rightarrow> exn + int" where
  "py_int s =
     (let t = strip s;
          (negative, body) =
            (case t of
               [] \<Rightarrow> (False, [])
             | c # rest \<Rightarrow> if c = CHR ''-'' then (True, rest)
                           else if c = CHR ''+'' then (False, rest) else (False, t))
      in if valid_literal body
         then Inr ((if negative then - 1 else 1) * int (digits_val (filter (\<lambda>c. c \<noteq> CHR ''_'') body)))
         else Inl (ValueError ''invalid literal for int() with base 10''))"

text \<open>\<^verbatim>\<open>[int(i) for i in ...]\<close> and \<^verbatim>\<open>map(int, ...)\<close>: the first failure raises.\<close>

fun map_int :: "string list \<Rightarrow> exn + int list" where
  "map_int [] = Inr []"
| "map_int (s # rest) =
     (case py_int s of
        Inl e \<Rightarrow> Inl e
      | Inr i \<Rightarrow> (case map_int rest of Inl e \<Rightarrow> Inl e | Inr is \<Rightarrow> Inr (i # is)))"

text \<open>\<^verbatim>\<open>s.split(" ")\<close>: the pieces between single separators, empty ones included.\<close>

fun split_on :: "char \<Rightarrow> string \<Rightarrow> string list" where
  "split_on sep [] = [[]]"
| "split_on sep (c # cs) =
     (if c = sep then [] # split_on sep cs
      else (case split_on sep cs of
              [] \<Rightarrow> [[c]]
            | piece # pieces \<Rightarrow> (c # piece) # pieces))"

text \<open>
  \<^verbatim>\<open>list(set([int(i) for i in random_seeds.replace("\t", " ").replace("\n", " ").split(" ")
    if len(i) > 0]))\<close>.
  Python does not fix the order in which a set is listed; \<open>remdups\<close> stands for it, and
  nothing below is stated about the order of the loaded seeds.
\<close>

definition seed_tokens :: "string \<Rightarrow> string list" where
  "seed_tokens txt =
     filter (\<lambda>i. 0 < length i)
       (split_on CHR '' '' (map (\<lambda>c. if c = CHR 0x09 \<or> c = CHR 0x0A then CHR '' '' else c) txt))"

definition load_seeds :: "string \<Rightarrow> exn + int list" where
  "load_seeds txt = (case map_int (seed_tokens txt) of Inl e \<Rightarrow> Inl e | Inr is \<Rightarrow> Inr (remdups is))"

text \<open>
  The rows are those \<^verbatim>\<open>csv.reader\<close> yields, each the list of its fields. The first row is
  skipped; every other one becomes \<^verbatim>\<open>tuple(list(map(int, map(lambda i: i.strip(), line))))\<close>.
\<close>

fun load_rows :: "string list list \<Rightarrow> exn + int list list" where
  "load_rows [] = Inr []"
| "load_rows (row # rest) =
     (case map_int (map strip row) of
        Inl e \<Rightarrow> Inl e
      | Inr t \<Rightarrow> (case load_rows rest of Inl e \<Rightarrow> Inl e | Inr ts \<Rightarrow> Inr (t # ts)))"

definition load_configs :: "string list list \<Rightarrow> exn + int list list" where
  "load_configs rows = load_rows (drop 1 rows)"

section \<open>The script\<close>

text \<open>
  \<^verbatim>\<open>sys.argv[i]\<close>, and the three integers among the arguments. The outer handler is
  \<^verbatim>\<open>except Exception as exp: traceback.print_exc()\<close>: the exception is printed and the
  script ends there, so the exit status of the process is 0 whenever it ends.
\<close>

definition argument :: "string list \<Rightarrow> nat \<Rightarrow> exn + string" where
  "argument argv i = (if i < length argv then Inr (argv ! i) else Inl (IndexError ''list index out of range''))"

definition int_argument :: "string list \<Rightarrow> nat \<Rightarrow> exn + int" where
  "int_argument argv i = (case argument argv i of Inl e \<Rightarrow> Inl e | Inr s \<Rightarrow> py_int s)"

record outcome =
  exit_code :: int
  traceback :: "exn option"
  final :: world

definition script_body ::
  "generator \<Rightarrow> string list \<Rightarrow> string \<Rightarrow> string list list \<Rightarrow> world \<Rightarrow> (exn option \<times> world) option" where
  "script_body gen argv seed_text rows w =
     (let w0 = sleep (HEAT_UP_TIME * 1000) w in
      (case argument argv 1 of Inl e \<Rightarrow> Some (Some e, w0) | Inr configs_file \<Rightarrow>
      (case int_argument argv 2 of Inl e \<Rightarrow> Some (Some e, w0) | Inr target_instances \<Rightarrow>
      (case int_argument argv 3 of Inl e \<Rightarrow> Some (Some e, w0) | Inr k_range \<Rightarrow>
      (case int_argument argv 4 of Inl e \<Rightarrow> Some (Some e, w0) | Inr m_range \<Rightarrow>
      (case load_seeds seed_text of Inl e \<Rightarrow> Some (Some e, w0) | Inr random_seeds \<Rightarrow>
      (case load_configs rows of Inl e \<Rightarrow> Some (Some e, w0) | Inr configs_to_run \<Rightarrow>
         convergence_loop gen random_seeds k_range m_range target_instances configs_to_run w0)))))))"

definition script ::
  "generator \<Rightarrow> string list \<Rightarrow> string \<Rightarrow> string list list \<Rightarrow> world \<Rightarrow> outcome option" where
  "script gen argv seed_text rows w =
     (case script_body gen argv seed_text rows w of
        None \<Rightarrow> None
      | Some (raised, w1) \<Rightarrow> Some \<lparr>exit_code = 0, traceback = raised, final = w1\<rparr>)"

section \<open>Observations used in the statements\<close>

text \<open>The time a lock has left, in milliseconds, as \<^verbatim>\<open>PTTL\<close> reports it for a key with an expiry.\<close>

definition remaining :: "world \<Rightarrow> string \<Rightarrow> nat option" where
  "remaining w k = (case locks w k of
     Some (v, Some e) \<Rightarrow> if clock w \<le> e then Some (e - clock w) else None
   | _ \<Rightarrow> None)"

text \<open>
  Workers that attempt the same lock: the server runs one transaction after the other,
  so a race is the list of the instants of the attempts in the order the server takes
  them, and its result the list of the answers.
\<close>

fun attempts :: "nat list \<Rightarrow> string \<Rightarrow> world \<Rightarrow> bool list \<times> world" where
  "attempts [] k w = ([], w)"
| "attempts (t # ts) k w =
     (let (has_lock, w1) = claim_block (w\<lparr>clock := t\<rparr>) k;
          (answers, w2) = attempts ts k w1
      in (has_lock # answers, w2))"

text \<open>The lock on \<open>k\<close> is there and does not expire before \<open>bound\<close>.\<close>

definition held_until :: "nat \<Rightarrow> world \<Rightarrow> string \<Rightarrow> bool" where
  "held_until bound w k = (case locks w k of
     None \<Rightarrow> False
   | Some (v, None) \<Rightarrow> True
   | Some (v, Some e) \<Rightarrow> bound \<le> e)"

text \<open>
  Sample inputs for the closed instances of the theorems: a configuration, a generator
  that prints an instance line and an evaluation line for every seed it is given, and one that prints nothing and
  exits with status 1.
\<close>

definition sample_config :: config where
  "sample_config = \<lparr>num_pois = 1, num_sensors = 2, num_sinks = 3, area_side = 4,
                     covg_radius = 5, comm_radius = 6\<rparr>"

definition pair_generator :: generator where
  "pair_generator argv =
     \<lparr>stdout_lines = concat (map (\<lambda>s. [''instance'' @ [CHR 0x0A], ''evaluation'' @ [CHR 0x0A]]) (drop 8 argv)),
      exit_status = 0\<rparr>"

definition silent_generator :: generator where
  "silent_generator argv = \<lparr>stdout_lines = [], exit_status = 1\<rparr>"

text \<open>
  The lines \<^verbatim>\<open>readline\<close> and \<^verbatim>\<open>decode\<close> accept, and the payload read from the \<open>j\<close>-th
  line of a stream: past the end of the stream it is the empty string.
\<close>

definition readable :: "string list \<Rightarrow> bool" where
  "readable ls =
     list_all (\<lambda>l. length (takeWhile (\<lambda>c. c \<noteq> CHR 0x0A) l) \<le> READ_LIMIT \<and>
                    list_all (\<lambda>c. (of_char c :: nat) < 128) l) ls"

definition payload_at :: "string list \<Rightarrow> nat \<Rightarrow> string" where
  "payload_at ls j = strip (if j < length ls then ls ! j else [])"

definition store_pair :: "string \<Rightarrow> string \<Rightarrow> string list \<Rightarrow> nat \<times> int \<Rightarrow> world \<Rightarrow> world" where
  "store_pair ikey ekey ls p w =
     hset (hset w ikey (str_int (snd p)) (payload_at ls (2 * fst p)))
       ekey (str_int (snd p)) (payload_at ls (2 * fst p + 1))"

text \<open>The values of \<^verbatim>\<open>current_work\<close> on the progress lines among some printed lines.\<close>

fun work_reports :: "line list \<Rightarrow> int list" where
  "work_reports [] = []"
| "work_reports (Progress t previous_work current_work # rest) = current_work # work_reports rest"
| "work_reports (GotLock k block # rest) = work_reports rest"

text \<open>A world in which another worker holds the lock of block 0 of the sample configuration.\<close>

definition locked_world :: world where
  "locked_world =
     empty_world\<lparr>locks := (\<lambda>k. None)(''LOCK:BLOCK0:INSTANCE:1:2:3:4:5:6'' \<mapsto> (''0'', Some 10000000))\<rparr>"

text \<open>
  Sample inputs of the script: its arguments, the rows of a configuration file with
  the sample configuration under a header, and a generator whose output is not ASCII.
\<close>

definition sample_argv :: "string list" where
  "sample_argv = [''driver.py'', ''configs.csv'', ''2'', ''1'', ''1'']"

definition sample_rows :: "string list list" where
  "sample_rows = [[''pois'', ''sensors'', ''sinks'', ''area'', ''covg'', ''comm''],
                  [''1'', ''2'', ''3'', ''4'', ''5'', ''6'']]"

definition garbled_generator :: generator where
  "garbled_generator argv = \<lparr>stdout_lines = [[CHR 0xFF, CHR 0x0A]], exit_status = 0\<rparr>"

text \<open>
  Two states of the Instance Records under a key: \<open>filled\<close>, when the fields are the
  first \<open>n\<close> seeds of the Seed Universe, each once; \<open>known_only\<close>, when every field is
  a seed of the Seed Universe.
\<close>

definition filled :: "nat \<Rightarrow> int list \<Rightarrow> world \<Rightarrow> string \<Rightarrow> bool" where
  "filled n random_seeds w ikey =
     (distinct (map fst (hashes w ikey)) \<and>
      fst ` set (hashes w ikey) = str_int ` set (take n random_seeds))"

definition known_only :: "int list \<Rightarrow> world \<Rightarrow> string \<Rightarrow> bool" where
  "known_only random_seeds w ikey =
     (distinct (map fst (hashes w ikey)) \<and>
      fst ` set (hashes w ikey) \<subseteq> str_int ` set random_seeds)"

section \<open>Decimal strings are injective\<close>

lemma digit_cases:
  "d < 10 \<Longrightarrow> d = 0 \<or> d = 1 \<or> d = 2 \<or> d = 3 \<or> d = 4 \<or> d = 5 \<or> d = 6 \<or> d = 7 \<or> d = 8 \<or> d = (9::nat)"
  by arith

lemma digit_val_digit_char: "d < 10 \<Longrightarrow> digit_val (digit_char d) = d"
  using digit_cases [of d] by (auto simp: digit_val_def digit_char_def)

lemma digit_char_not_special: "d < 10 \<Longrightarrow> digit_char d \<noteq> CHR ''-'' \<and> digit_char d \<noteq> CHR '':''"
  using digit_cases [of d] by (auto simp: digit_char_def)

lemma digits_val_str_nat: "digits_val (str_nat n) = n"
proof (induction n rule: str_nat.induct)
  case (1 n)
  show ?case
  proof (cases "n < 10")
    case True
    then show ?thesis
      by (subst str_nat.simps) (simp add: digits_val_def digit_val_digit_char)
  next
    case False
    with 1 have "digits_val (str_nat (n div 10)) = n div 10" by simp
    with False show ?thesis
      by (subst str_nat.simps) (simp add: digits_val_def digit_val_digit_char)
  qed
qed

lemma str_nat_inj: "str_nat a = str_nat b \<Longrightarrow> a = b"
  by (metis digits_val_str_nat)

lemma str_nat_chars: "c \<in> set (str_nat n) \<Longrightarrow> c \<noteq> CHR ''-'' \<and> c \<noteq> CHR '':''"
proof (induction n rule: str_nat.induct)
  case (1 n)
  show ?case
  proof (cases "n < 10")
    case True
    with 1(2) show ?thesis
      by (subst (asm) str_nat.simps) (simp add: digit_char_not_special)
  next
    case False
    with 1 show ?thesis
      by (subst (asm) (2) str_nat.simps) (auto simp: digit_char_not_special)
  qed
qed

lemma str_nat_nonempty: "str_nat n \<noteq> []"
  by (subst str_nat.simps) simp

lemma str_int_inj: "str_int a = str_int b \<Longrightarrow> a = b"
proof -
  assume h: "str_int a = str_int b"
  have hd_nat: "\<And>n. hd (str_nat n) \<noteq> CHR ''-''"
    using str_nat_chars str_nat_nonempty by (metis hd_in_set)
  show ?thesis
  proof (cases "a < 0")
    case True
    note a = this
    show ?thesis
    proof (cases "b < 0")
      case True
      with a h have "str_nat (nat (- a)) = str_nat (nat (- b))" by (simp add: str_int_def)
      then have "nat (- a) = nat (- b)" by (rule str_nat_inj)
      with a True show ?thesis by simp
    next
      case False
      with a h have "CHR ''-'' # str_nat (nat (- a)) = str_nat (nat b)" by (simp add: str_int_def)
      then have "hd (str_nat (nat b)) = CHR ''-''" by (metis list.sel(1))
      with hd_nat show ?thesis by blast
    qed
  next
    case False
    note a = this
    show ?thesis
    proof (cases "b < 0")
      case True
      with a h have "str_nat (nat a) = CHR ''-'' # str_nat (nat (- b))" by (simp add: str_int_def)
      then have "hd (str_nat (nat a)) = CHR ''-''" by (metis list.sel(1))
      with hd_nat show ?thesis by blast
    next
      case False
      with a h have "str_nat (nat a) = str_nat (nat b)" by (simp add: str_int_def)
      then have "nat a = nat b" by (rule str_nat_inj)
      with a False show ?thesis by simp
    qed
  qed
qed

lemma lock_key_inj: "lock_key a ikey = lock_key b ikey \<Longrightarrow> a = b"
  by (simp add: lock_key_def str_nat_inj)

section \<open>The lock protocol\<close>

lemma claim_block_eq:
  "claim_block w k =
     (\<not> live w k,
      w\<lparr>locks := (locks w)(k \<mapsto> (if live w k then fst (the (locks w k)) else str_nat (time_ns w),
                                   Some (clock w + LOCK_TIME * 1000)))\<rparr>)"
  by (auto simp: claim_block_def setnx_def expire_def live_def split: option.splits prod.splits)

lemma held_until_claim: "held_until (clock w + LOCK_TIME * 1000) (snd (claim_block w k)) k"
  by (simp add: claim_block_eq held_until_def)

lemma held_until_mono: "held_until b w k \<Longrightarrow> b' \<le> b \<Longrightarrow> held_until b' w k"
  by (auto simp: held_until_def split: option.splits)

lemma held_until_live: "held_until b w k \<Longrightarrow> t \<le> b \<Longrightarrow> live (w\<lparr>clock := t\<rparr>) k"
  by (auto simp: held_until_def live_def split: option.splits)

lemma attempts_all_fail:
  "held_until (t0 + LOCK_TIME * 1000) w k \<Longrightarrow> \<forall>t \<in> set ts. t0 \<le> t \<and> t \<le> t0 + LOCK_TIME * 1000 \<Longrightarrow>
   fst (attempts ts k w) = replicate (length ts) False"
proof (induction ts arbitrary: w)
  case Nil
  then show ?case by simp
next
  case (Cons t ts)
  from Cons.prems have t: "t0 \<le> t" "t \<le> t0 + LOCK_TIME * 1000" by simp_all
  have lv: "live (w\<lparr>clock := t\<rparr>) k"
    using Cons.prems(1) t(2) by (rule held_until_live)
  have "held_until (clock (w\<lparr>clock := t\<rparr>) + LOCK_TIME * 1000) (snd (claim_block (w\<lparr>clock := t\<rparr>) k)) k"
    by (rule held_until_claim)
  then have "held_until (t0 + LOCK_TIME * 1000) (snd (claim_block (w\<lparr>clock := t\<rparr>) k)) k"
    using t(1) by (auto elim: held_until_mono)
  then have "fst (attempts ts k (snd (claim_block (w\<lparr>clock := t\<rparr>) k))) = replicate (length ts) False"
    using Cons.prems(2) by (intro Cons.IH) simp_all
  moreover have "fst (claim_block (w\<lparr>clock := t\<rparr>) k) = False"
    using lv by (simp add: claim_block_eq)
  ultimately show ?case
    by (simp add: case_prod_unfold Let_def)
qed

text \<open>
  C10. Every attempt runs \<^verbatim>\<open>SETNX\<close> and \<^verbatim>\<open>EXPIRE\<close> in one transaction whatever
  \<^verbatim>\<open>SETNX\<close> answered: after any attempt on a lock key, also one that failed because the
  lock was held, the key is live and the time it has left is the full \<open>LOCK_TIME\<close>
  (in milliseconds); the attempt succeeded exactly when the key was not live before.
\<close>

theorem lock_ttl_reset:
  "remaining (snd (claim_block w k)) k = Some (LOCK_TIME * 1000) \<and>
   live (snd (claim_block w k)) k \<and>
   fst (claim_block w k) = (\<not> live w k)"
  by (simp add: claim_block_eq remaining_def live_def)

text \<open>
  C1. Mutual exclusion: when \<open>n\<close> workers attempt the same lock key at the same instant
  \<open>t\<close>, the server running their transactions one after the other, at most one attempt
  succeeds; and when the key is not live at \<open>t\<close> and there is at least one worker,
  exactly one succeeds, the first the server takes, and the other \<open>n - 1\<close> get the
  answer "not claimed". An attempt has no failing outcome: its result is the answer.
\<close>

theorem mutual_exclusion:
  "length (filter (\<lambda>b. b) (fst (attempts (replicate n t) k w))) \<le> 1 \<and>
   (0 < n \<and> \<not> live (w\<lparr>clock := t\<rparr>) k \<longrightarrow>
      fst (attempts (replicate n t) k w) = True # replicate (n - 1) False)"
proof (cases n)
  case 0
  then show ?thesis by simp
next
  case (Suc m)
  let ?w1 = "snd (claim_block (w\<lparr>clock := t\<rparr>) k)"
  have "held_until (clock (w\<lparr>clock := t\<rparr>) + LOCK_TIME * 1000) ?w1 k"
    by (rule held_until_claim)
  then have "held_until (t + LOCK_TIME * 1000) ?w1 k" by simp
  then have rest: "fst (attempts (replicate m t) k ?w1) = replicate m False"
    using attempts_all_fail [of t ?w1 k "replicate m t"] by simp
  have first: "fst (claim_block (w\<lparr>clock := t\<rparr>) k) = (\<not> live (w\<lparr>clock := t\<rparr>) k)"
    by (simp add: claim_block_eq)
  have all: "fst (attempts (replicate n t) k w) = (\<not> live (w\<lparr>clock := t\<rparr>) k) # replicate m False"
    using Suc rest first by (simp add: case_prod_unfold Let_def)
  show ?thesis
    using all Suc by simp
qed

theorem mutual_exclusion_witness:
  "0 < (3::nat) \<and> \<not> live (empty_world\<lparr>clock := 5\<rparr>) ''LOCK:BLOCK0:INSTANCE:1:2:3:4:5:6'' \<and>
   fst (attempts (replicate 3 5) ''LOCK:BLOCK0:INSTANCE:1:2:3:4:5:6'' empty_world) = [True, False, False]"
proof -
  have h: "\<not> live (empty_world\<lparr>clock := 5\<rparr>) ''LOCK:BLOCK0:INSTANCE:1:2:3:4:5:6''"
    by (simp add: live_def empty_world_def)
  show ?thesis
    using h mutual_exclusion [of 3 5 "''LOCK:BLOCK0:INSTANCE:1:2:3:4:5:6''" empty_world]
    by (simp add: numeral_3_eq_3)
qed

text \<open>
  C6, as the code has it. Every attempt on a lock key, successful or not, restarts its
  time to live: the next attempt succeeds exactly when it comes strictly later than
  \<open>LOCK_TIME\<close> after the attempt before it. Counted from the acquisition, a lock that is
  never deleted is never claimed again before \<open>LOCK_TIME\<close> has elapsed, whatever
  attempts are made in between.
\<close>

theorem lock_self_healing:
  "fst (claim_block (snd (claim_block w k)\<lparr>clock := t\<rparr>) k) = (clock w + LOCK_TIME * 1000 < t) \<and>
   ((\<forall>t' \<in> set ts. clock w \<le> t' \<and> t' \<le> clock w + LOCK_TIME * 1000) \<longrightarrow>
      fst (attempts ts k (snd (claim_block w k))) = replicate (length ts) False)"
proof -
  have "fst (claim_block (snd (claim_block w k)\<lparr>clock := t\<rparr>) k) = (clock w + LOCK_TIME * 1000 < t)"
    by (auto simp: claim_block_eq live_def)
  moreover have "(\<forall>t' \<in> set ts. clock w \<le> t' \<and> t' \<le> clock w + LOCK_TIME * 1000) \<longrightarrow>
      fst (attempts ts k (snd (claim_block w k))) = replicate (length ts) False"
    using attempts_all_fail [OF held_until_claim, where ts = ts] by blast
  ultimately show ?thesis by blast
qed

theorem lock_self_healing_witness:
  "(1000::nat) \<le> 2000 \<and> 2000 \<le> 1000 + LOCK_TIME * 1000 \<and> 9000000 \<le> 1000 + LOCK_TIME * 1000 \<and>
   fst (attempts [2000, 9000000] ''LOCK:BLOCK0:INSTANCE:1:2:3:4:5:6''
         (snd (claim_block (empty_world\<lparr>clock := 1000\<rparr>) ''LOCK:BLOCK0:INSTANCE:1:2:3:4:5:6''))) = [False, False] \<and>
   fst (claim_block (snd (claim_block (empty_world\<lparr>clock := 1000\<rparr>) ''LOCK:BLOCK0:INSTANCE:1:2:3:4:5:6'')\<lparr>clock := 10001001\<rparr>)
         ''LOCK:BLOCK0:INSTANCE:1:2:3:4:5:6'')"
proof -
  have h: "\<forall>t' \<in> set [2000, 9000000]. clock (empty_world\<lparr>clock := 1000\<rparr>) \<le> t' \<and>
       t' \<le> clock (empty_world\<lparr>clock := 1000\<rparr>) + LOCK_TIME * 1000"
    by (simp add: LOCK_TIME_def)
  show ?thesis
    using h lock_self_healing [where w = "empty_world\<lparr>clock := 1000\<rparr>" and k = "''LOCK:BLOCK0:INSTANCE:1:2:3:4:5:6''"
        and t = 10001001 and ts = "[2000, 9000000]"]
    by (simp add: LOCK_TIME_def)
qed

text \<open>
  The claim as the specification words it fails: a lock acquired at instant 0 and never
  deleted, a failed attempt 5000 seconds later, and the attempt one millisecond after
  the 10000 seconds since the acquisition still fails.
\<close>

theorem lock_self_healing_counterexample:
  "fst (attempts [0, 5000000, 10000001] ''LOCK:BLOCK0:INSTANCE:1:2:3:4:5:6'' empty_world) = [True, False, False]"
  by (simp add: claim_block_eq live_def empty_world_def LOCK_TIME_def)

section \<open>The scan over the blocks\<close>

lemma block_range_closed:
  "block_range lo hi = map (\<lambda>i. lo + i * BLOCK_SIZE) [0..<(hi - lo + BLOCK_SIZE - 1) div BLOCK_SIZE]"
proof (induction lo hi rule: block_range.induct)
  case (1 lo hi)
  show ?case
  proof (cases "lo < hi")
    case False
    then show ?thesis
      by (subst block_range.simps) (simp add: BLOCK_SIZE_def)
  next
    case True
    then obtain m where m: "(hi - lo + BLOCK_SIZE - 1) div BLOCK_SIZE = Suc m"
      "(hi - (lo + BLOCK_SIZE) + BLOCK_SIZE - 1) div BLOCK_SIZE = m"
      by (cases "(hi - lo + BLOCK_SIZE - 1) div BLOCK_SIZE") (auto simp: BLOCK_SIZE_def)
    have "block_range lo hi = lo # block_range (lo + BLOCK_SIZE) hi"
      using True by (subst block_range.simps) simp
    also have "\<dots> = lo # map (\<lambda>i. lo + BLOCK_SIZE + i * BLOCK_SIZE) [0..<m]"
      using 1 [OF True] m(2) by simp
    also have "\<dots> = map (\<lambda>i. lo + i * BLOCK_SIZE) [0..<Suc m]"
      by (simp add: upt_conv_Cons map_Suc_upt [symmetric] del: upt_Suc)
    finally show ?thesis using m(1) by simp
  qed
qed

lemma live_cong: "locks w k = locks w' k \<Longrightarrow> clock w = clock w' \<Longrightarrow> live w k = live w' k"
  by (auto simp: live_def split: option.splits)

lemma scan_blocks_find:
  "distinct offs \<Longrightarrow> clock w = t0 + 50 * n \<Longrightarrow>
   \<forall>b \<in> set offs. locks w (lock_key b ikey) = locks w0 (lock_key b ikey) \<Longrightarrow>
   (case find (\<lambda>(j, b). \<not> live (w0\<lparr>clock := t0 + 50 * j\<rparr>) (lock_key b ikey)) (enumerate n offs) of
      Some (j, b) \<Rightarrow>
        fst (scan_blocks ikey offs acc w) = (Some True, b) \<and> n \<le> j \<and>
        clock (snd (scan_blocks ikey offs acc w)) = t0 + 50 * j \<and>
        (\<forall>b' \<in> set (drop (Suc (j - n)) offs).
           locks (snd (scan_blocks ikey offs acc w)) (lock_key b' ikey) = locks w (lock_key b' ikey))
    | None \<Rightarrow> fst (scan_blocks ikey offs acc w) = (if offs = [] then acc else (Some False, last offs)))"
proof (induction offs arbitrary: w n acc)
  case Nil
  then show ?case by simp
next
  case (Cons x rest)
  have lv: "live (w0\<lparr>clock := t0 + 50 * n\<rparr>) (lock_key x ikey) = live w (lock_key x ikey)"
    using Cons.prems by (intro live_cong) simp_all
  show ?case
  proof (cases "live w (lock_key x ikey)")
    case False
    have "\<forall>b' \<in> set rest. lock_key b' ikey \<noteq> lock_key x ikey"
      using Cons.prems(1) lock_key_inj by auto
    with False lv Cons.prems(2) show ?thesis
      by (auto simp: claim_block_eq)
  next
    case True
    let ?w' = "sleep 50 (snd (claim_block w (lock_key x ikey)))"
    have ne: "\<forall>b' \<in> set rest. lock_key b' ikey \<noteq> lock_key x ikey"
      using Cons.prems(1) lock_key_inj by auto
    have scan: "scan_blocks ikey (x # rest) acc w = scan_blocks ikey rest (Some False, x) ?w'"
      using True by (simp add: claim_block_eq)
    have same: "\<forall>b \<in> set rest. locks ?w' (lock_key b ikey) = locks w (lock_key b ikey)"
      using ne by (simp add: claim_block_eq sleep_def)
    have p1: "distinct rest" using Cons.prems(1) by simp
    have p2: "clock ?w' = t0 + 50 * Suc n"
      using Cons.prems(2) by (simp add: claim_block_eq sleep_def)
    have p3: "\<forall>b \<in> set rest. locks ?w' (lock_key b ikey) = locks w0 (lock_key b ikey)"
      using same Cons.prems(3) by simp
    note IH = Cons.IH [OF p1 p2 p3, of "(Some False, x)"]
    show ?thesis
    proof (cases "find (\<lambda>(j, b). \<not> live (w0\<lparr>clock := t0 + 50 * j\<rparr>) (lock_key b ikey)) (enumerate (Suc n) rest)")
      case None
      with IH True lv scan show ?thesis by simp
    next
      case (Some p)
      obtain j b where p: "p = (j, b)" by (cases p)
      from IH Some p have r: "fst (scan_blocks ikey rest (Some False, x) ?w') = (Some True, b)" "Suc n \<le> j"
        "clock (snd (scan_blocks ikey rest (Some False, x) ?w')) = t0 + 50 * j"
        "\<forall>b' \<in> set (drop (Suc (j - Suc n)) rest).
           locks (snd (scan_blocks ikey rest (Some False, x) ?w')) (lock_key b' ikey) = locks ?w' (lock_key b' ikey)"
        by simp_all
      have "j - n = Suc (j - Suc n)" using r(2) by arith
      then have d: "drop (j - n) rest = drop (Suc (j - Suc n)) rest"
        by simp
      have u: "\<forall>b' \<in> set (drop (Suc (j - Suc n)) rest).
           locks (snd (scan_blocks ikey rest (Some False, x) ?w')) (lock_key b' ikey) = locks w (lock_key b' ikey)"
        using r(4) same by (metis in_set_dropD)
      show ?thesis
        using Some p True lv r(1,2,3) u unfolding scan by (simp add: d)
    qed
  qed
qed


lemma block_range_distinct: "distinct (block_range lo hi)"
  unfolding block_range_closed
  by (simp add: distinct_map inj_on_def BLOCK_SIZE_def)

lemma block_range_sorted: "sorted_wrt (<) (block_range lo hi)"
proof -
  have "sorted_wrt (<) [0..<(hi - lo + BLOCK_SIZE - 1) div BLOCK_SIZE]"
    by simp
  then have "sorted_wrt (\<lambda>i j. lo + i * BLOCK_SIZE < lo + j * BLOCK_SIZE) [0..<(hi - lo + BLOCK_SIZE - 1) div BLOCK_SIZE]"
    by (rule sorted_wrt_mono_rel [rotated]) (simp add: BLOCK_SIZE_def)
  then show ?thesis
    unfolding block_range_closed by (simp add: sorted_wrt_map)
qed

lemma block_range_below: "list_all (\<lambda>b. b < hi) (block_range lo hi)"
proof (induction lo hi rule: block_range.induct)
  case (1 lo hi)
  then show ?case
    by (subst block_range.simps) simp
qed

lemma block_range_empty: "(block_range 0 hi = []) = (hi = 0)"
  by (subst block_range.simps) simp

lemma scan_order:
  "block_range 0 target = map (\<lambda>i. i * BLOCK_SIZE) [0..<(target + BLOCK_SIZE - 1) div BLOCK_SIZE] \<and>
   sorted_wrt (<) (block_range 0 target) \<and>
   list_all (\<lambda>block. block < target) (block_range 0 target) \<and>
   block_range 0 45 = [0, 20, 40] \<and>
   (case find (\<lambda>(j, block). \<not> live (w\<lparr>clock := clock w + 50 * j\<rparr>) (lock_key block ikey))
           (enumerate 0 (block_range 0 target)) of
      Some (j, block) \<Rightarrow>
        fst (scan_blocks ikey (block_range 0 target) (None, 0) w) = (Some True, block) \<and>
        clock (snd (scan_blocks ikey (block_range 0 target) (None, 0) w)) = clock w + 50 * j \<and>
        map (\<lambda>b. locks (snd (scan_blocks ikey (block_range 0 target) (None, 0) w)) (lock_key b ikey))
            (drop (Suc j) (block_range 0 target)) =
        map (\<lambda>b. locks w (lock_key b ikey)) (drop (Suc j) (block_range 0 target))
    | None \<Rightarrow>
        fst (scan_blocks ikey (block_range 0 target) (None, 0) w) =
          (if target = 0 then (None, 0) else (Some False, last (block_range 0 target))))"
proof -
  have a: "block_range 0 target = map (\<lambda>i. i * BLOCK_SIZE) [0..<(target + BLOCK_SIZE - 1) div BLOCK_SIZE]"
    by (simp add: block_range_closed)
  have b: "block_range 0 45 = [0, 20, 40]"
    by (simp add: block_range.simps BLOCK_SIZE_def)
  have c: "clock w = clock w + 50 * 0" by simp
  have d: "\<forall>b \<in> set (block_range 0 target). locks w (lock_key b ikey) = locks w (lock_key b ikey)"
    by simp
  note s = scan_blocks_find [where offs = "block_range 0 target" and w = w and ?t0.0 = "clock w" and n = 0
      and ikey = ikey and ?w0.0 = w and acc = "(None, 0)", OF block_range_distinct c d]
  have e: "(case find (\<lambda>(j, block). \<not> live (w\<lparr>clock := clock w + 50 * j\<rparr>) (lock_key block ikey))
           (enumerate 0 (block_range 0 target)) of
      Some (j, block) \<Rightarrow>
        fst (scan_blocks ikey (block_range 0 target) (None, 0) w) = (Some True, block) \<and>
        clock (snd (scan_blocks ikey (block_range 0 target) (None, 0) w)) = clock w + 50 * j \<and>
        map (\<lambda>b. locks (snd (scan_blocks ikey (block_range 0 target) (None, 0) w)) (lock_key b ikey))
            (drop (Suc j) (block_range 0 target)) =
        map (\<lambda>b. locks w (lock_key b ikey)) (drop (Suc j) (block_range 0 target))
    | None \<Rightarrow>
        fst (scan_blocks ikey (block_range 0 target) (None, 0) w) =
          (if target = 0 then (None, 0) else (Some False, last (block_range 0 target))))"
    using s by (auto simp: block_range_empty split: option.splits)
  show ?thesis
    using a b e block_range_sorted [of 0 target] block_range_below [of target 0] by blast
qed

lemma block_scan_example:
  "fst (scan_blocks ''INSTANCE:1:2:3:4:5:6'' (block_range 0 45) (None, 0)
         (empty_world\<lparr>locks := (\<lambda>k. None)(''LOCK:BLOCK0:INSTANCE:1:2:3:4:5:6'' \<mapsto> (''7'', Some 100))\<rparr>))
   = (Some True, 20)"
  by (simp add: block_range.simps BLOCK_SIZE_def claim_block_eq live_def empty_world_def lock_key_def
      str_nat.simps digit_char_def sleep_def)

section \<open>The branches of \<^verbatim>\<open>generate_instances\<close>\<close>

lemma generate_fault:
  "connect w = (Some e, w0) \<Longrightarrow>
   generate_instances gen random_seeds k_range m_range c target_instances w = (Inl e, w0)"
  by (simp add: generate_instances_def)

lemma generate_complete:
  "connect w = (None, w0) \<Longrightarrow> target_instances \<le> int (hlen w0 (instance_key c)) \<Longrightarrow>
   generate_instances gen random_seeds k_range m_range c target_instances w =
     (Inr (hlen w0 (instance_key c), 0), w0)"
  by (simp add: generate_instances_def)

lemma generate_contended:
  "connect w = (None, w0) \<Longrightarrow> \<not> target_instances \<le> int (hlen w0 (instance_key c)) \<Longrightarrow>
   scan_blocks (instance_key c) (block_range 0 (nat target_instances)) (None, 0) w0 = ((Some False, block), w1) \<Longrightarrow>
   generate_instances gen random_seeds k_range m_range c target_instances w =
     (Inr (hlen w0 (instance_key c), - 1), w1)"
  by (simp add: generate_instances_def)

lemma generate_nothing:
  "connect w = (None, w0) \<Longrightarrow> \<not> target_instances \<le> int (hlen w0 (instance_key c)) \<Longrightarrow>
   scan_blocks (instance_key c) (block_range 0 (nat target_instances)) (None, 0) w0 = ((Some True, block), w1) \<Longrightarrow>
   to_generate w1 (instance_key c) random_seeds block (hlen w0 (instance_key c)) (nat target_instances) = [] \<Longrightarrow>
   generate_instances gen random_seeds k_range m_range c target_instances w =
     (Inr (hlen w0 (instance_key c), - 2), w1\<lparr>printed := printed w1 @ [GotLock (instance_key c) block]\<rparr>)"
  by (simp add: generate_instances_def to_generate_def hexists_def Let_def)

lemma generate_reads:
  "connect w = (None, w0) \<Longrightarrow> \<not> target_instances \<le> int (hlen w0 (instance_key c)) \<Longrightarrow>
   scan_blocks (instance_key c) (block_range 0 (nat target_instances)) (None, 0) w0 = ((Some True, block), w1) \<Longrightarrow>
   to_generate w1 (instance_key c) random_seeds block (hlen w0 (instance_key c)) (nat target_instances) = seeds \<Longrightarrow>
   seeds \<noteq> [] \<Longrightarrow>
   read_pairs (instance_key c) (evaluation_key c) seeds
     (stdout_lines (gen (generator_args k_range m_range c seeds)))
     (w1\<lparr>printed := printed w1 @ [GotLock (instance_key c) block],
         spawned := spawned w1 @ [generator_args k_range m_range c seeds]\<rparr>) = (r, w4) \<Longrightarrow>
   generate_instances gen random_seeds k_range m_range c target_instances w =
     (case r of
        Inl e \<Rightarrow> (Inl e, w4)
      | Inr rest \<Rightarrow> (Inr (hlen w4 (instance_key c), int (length seeds)),
                     w4\<lparr>locks := (locks w4)(lock_key block (instance_key c) := None)\<rparr>))"
  by (cases r) (simp_all add: generate_instances_def to_generate_def hexists_def delete_def Let_def)


section \<open>What each step leaves alone\<close>

lemma connect_frame:
  "hashes (snd (connect w)) = hashes w \<and> locks (snd (connect w)) = locks w \<and>
   clock (snd (connect w)) = clock w \<and> spawned (snd (connect w)) = spawned w \<and>
   printed (snd (connect w)) = printed w"
  by (simp add: connect_def split: list.splits option.splits)

lemma scan_blocks_frame:
  "hashes (snd (scan_blocks ikey offs acc w)) = hashes w \<and>
   faults (snd (scan_blocks ikey offs acc w)) = faults w \<and>
   spawned (snd (scan_blocks ikey offs acc w)) = spawned w \<and>
   printed (snd (scan_blocks ikey offs acc w)) = printed w"
  by (induction offs arbitrary: acc w) (simp_all add: claim_block_eq sleep_def)

lemma read_pairs_frame:
  "locks (snd (read_pairs ikey ekey seeds ls w)) = locks w \<and>
   clock (snd (read_pairs ikey ekey seeds ls w)) = clock w \<and>
   faults (snd (read_pairs ikey ekey seeds ls w)) = faults w \<and>
   spawned (snd (read_pairs ikey ekey seeds ls w)) = spawned w \<and>
   printed (snd (read_pairs ikey ekey seeds ls w)) = printed w"
  by (induction seeds arbitrary: ls w) (simp_all add: hset_def split: prod.splits sum.splits)

section \<open>The seeds handed to the generator\<close>

lemma slice_positions:
  "drop a (take b xs) = map ((!) xs) [a..<min b (length xs)]"
proof (rule nth_equalityI)
  show "length (drop a (take b xs)) = length (map ((!) xs) [a..<min b (length xs)])"
    by simp
next
  fix i
  assume "i < length (drop a (take b xs))"
  then have i: "a + i < b" "a + i < length xs" by simp_all
  then have "i < length [a..<min b (length xs)]" by simp
  then have "map ((!) xs) [a..<min b (length xs)] ! i = xs ! (a + i)"
    using i by (simp del: upt_Suc)
  moreover have "drop a (take b xs) ! i = xs ! (a + i)"
    using i by simp
  ultimately show "drop a (take b xs) ! i = map ((!) xs) [a..<min b (length xs)] ! i"
    by simp
qed

lemma to_generate_positions:
  "to_generate w ikey random_seeds block existing target =
     map ((!) random_seeds)
       (filter (\<lambda>i. \<not> hexists w ikey (str_int (random_seeds ! i)))
          [max block existing..<min target (length random_seeds)])"
  by (simp add: to_generate_def slice_positions filter_map comp_def)

lemma to_generate_hashes:
  "hashes w = hashes w' \<Longrightarrow> to_generate w ikey s b e t = to_generate w' ikey s b e t"
  by (simp add: to_generate_def hexists_def)

text \<open>
  C8. When a call of \<^verbatim>\<open>generate_instances\<close> meets no connection fault, finds fewer
  Instance Records than the target and claims the block at offset \<open>block\<close>, the seeds
  it hands to the generator (after the eight parameters of the argument vector) are
  the seeds at the positions from \<open>max block existing\<close> up to, not including, the target
  (or the end of the Seed Universe), in the order of the Seed Universe, without those
  that already have an Instance Record; when none is left, no generator is started.
\<close>

theorem generation_range:
  assumes "fst (connect w) = None"
    and "int (hlen w (instance_key c)) < target_instances"
    and "fst (scan_blocks (instance_key c) (block_range 0 (nat target_instances)) (None, 0) (snd (connect w)))
           = (Some True, block)"
  shows "spawned (snd (generate_instances gen random_seeds k_range m_range c target_instances w)) =
     spawned w @
       (let seeds = map ((!) random_seeds)
              (filter (\<lambda>i. \<not> hexists w (instance_key c) (str_int (random_seeds ! i)))
                 [max block (hlen w (instance_key c))..<min (nat target_instances) (length random_seeds)])
        in if seeds = [] then [] else [generator_args k_range m_range c seeds])"
proof -
  let ?ikey = "instance_key c"
  obtain w0 where c: "connect w = (None, w0)"
    using assms(1) by (cases "connect w") simp
  obtain w1 where s: "scan_blocks ?ikey (block_range 0 (nat target_instances)) (None, 0) w0 = ((Some True, block), w1)"
    using assms(3) c by (cases "scan_blocks ?ikey (block_range 0 (nat target_instances)) (None, 0) w0") simp
  have h0: "hashes w0 = hashes w" "spawned w0 = spawned w"
    using connect_frame [of w] c by simp_all
  have h1: "hashes w1 = hashes w" "spawned w1 = spawned w"
    using scan_blocks_frame [of ?ikey "block_range 0 (nat target_instances)" "(None, 0)" w0] s h0 by simp_all
  have len: "hlen w0 ?ikey = hlen w ?ikey"
    using h0 by (simp add: hlen_def)
  have lt: "\<not> target_instances \<le> int (hlen w0 ?ikey)"
    using assms(2) len by simp
  let ?seeds = "map ((!) random_seeds)
              (filter (\<lambda>i. \<not> hexists w ?ikey (str_int (random_seeds ! i)))
                 [max block (hlen w ?ikey)..<min (nat target_instances) (length random_seeds)])"
  have tg: "to_generate w1 ?ikey random_seeds block (hlen w0 ?ikey) (nat target_instances) = ?seeds"
    unfolding len to_generate_positions using h1 by (simp add: hexists_def)
  show ?thesis
  proof (cases "?seeds = []")
    case True
    then show ?thesis
      using generate_nothing [OF c lt s] tg h1 by (simp add: Let_def)
  next
    case False
    let ?argv = "generator_args k_range m_range c ?seeds"
    let ?w3 = "w1\<lparr>printed := printed w1 @ [GotLock ?ikey block], spawned := spawned w1 @ [?argv]\<rparr>"
    obtain r w4 where rp: "read_pairs ?ikey (evaluation_key c) ?seeds (stdout_lines (gen ?argv)) ?w3 = (r, w4)"
      by fastforce
    have "spawned (snd (read_pairs ?ikey (evaluation_key c) ?seeds (stdout_lines (gen ?argv)) ?w3)) = spawned ?w3"
      using read_pairs_frame by blast
    then have "spawned w4 = spawned ?w3"
      unfolding rp by simp
    then have sp: "spawned w4 = spawned w @ [?argv]"
      using h1 by simp
    show ?thesis
      using generate_reads [where gen = gen and k_range = k_range and m_range = m_range, OF c lt s tg False rp] sp False
      by (cases r) (simp_all add: Let_def)
  qed
qed


lemma connect_empty: "connect empty_world = (None, empty_world)"
  by (simp add: connect_def empty_world_def)

lemma sample_instance_key: "instance_key sample_config = ''INSTANCE:1:2:3:4:5:6''"
  by (simp add: instance_key_def config_suffix_def sample_config_def str_int_def str_nat.simps digit_char_def)

lemma sample_evaluation_key: "evaluation_key sample_config = ''EVALUATION:1:2:3:4:5:6''"
  by (simp add: evaluation_key_def config_suffix_def sample_config_def str_int_def str_nat.simps digit_char_def)

lemma sample_lock_key: "lock_key 0 ''INSTANCE:1:2:3:4:5:6'' = ''LOCK:BLOCK0:INSTANCE:1:2:3:4:5:6''"
  by (simp add: lock_key_def str_nat.simps digit_char_def)

lemma sample_scan:
  "scan_blocks ''INSTANCE:1:2:3:4:5:6'' (block_range 0 2) (None, 0) empty_world =
     ((Some True, 0), empty_world\<lparr>locks := (\<lambda>k. None)(''LOCK:BLOCK0:INSTANCE:1:2:3:4:5:6'' \<mapsto> (''0'', Some 10000000))\<rparr>)"
  by (simp add: block_range.simps BLOCK_SIZE_def sample_lock_key claim_block_eq live_def empty_world_def
      LOCK_TIME_def time_ns_def str_nat.simps digit_char_def)

theorem generation_range_witness:
  "spawned (snd (generate_instances pair_generator [5, 7, 9] 1 1 sample_config 2 empty_world)) =
     [[''1'', ''1'', ''1'', ''2'', ''3'', ''4'', ''5'', ''6'', ''5'', ''7'']]"
proof -
  have h1: "fst (connect empty_world) = None"
    by (simp add: connect_empty)
  have h2: "int (hlen empty_world (instance_key sample_config)) < 2"
    by (simp add: hlen_def empty_world_def)
  have h3: "fst (scan_blocks (instance_key sample_config) (block_range 0 (nat 2)) (None, 0) (snd (connect empty_world)))
           = (Some True, 0)"
    by (simp add: connect_empty sample_instance_key sample_scan)
  show ?thesis
    using generation_range [where gen = pair_generator and k_range = 1 and m_range = 1
        and random_seeds = "[5, 7, 9]", OF h1 h2 h3]
    by (simp add: hlen_def hexists_def empty_world_def generator_args_def sample_config_def
        str_int_def str_nat.simps digit_char_def upt_rec)
qed

section \<open>Reading the pairs\<close>

lemma instance_key_not_evaluation_key: "instance_key c \<noteq> evaluation_key c'"
  by (simp add: instance_key_def evaluation_key_def)

lemma read_payload_readable:
  "readable ls \<Longrightarrow> read_payload ls = (Inr (payload_at ls 0), tl ls) \<and> readable (tl ls)"
  by (cases ls) (auto simp: readable_def read_payload_def readline_def decode_ascii_def payload_at_def strip_def)

lemma payload_at_tl: "payload_at (tl ls) j = payload_at ls (Suc j)"
  by (cases ls) (auto simp: payload_at_def)

lemma payload_at_drop: "payload_at (drop k ls) j = payload_at ls (k + j)"
  by (auto simp: payload_at_def)

lemma read_pairs_shift:
  "readable ls \<Longrightarrow>
   read_pairs ikey ekey seeds (drop (2 * n) ls) w =
     (Inr (drop (2 * (n + length seeds)) ls),
      fold (store_pair ikey ekey ls) (enumerate n seeds) w)"
proof (induction seeds arbitrary: n w)
  case Nil
  then show ?case by simp
next
  case (Cons s seeds)
  have r0: "readable (drop (2 * n) ls)"
    using Cons.prems by (simp add: readable_def list_all_iff) (meson in_set_dropD)
  note p1 = read_payload_readable [OF r0]
  note p2 = read_payload_readable [OF conjunct2 [OF p1]]
  have t: "tl (tl (drop (2 * n) ls)) = drop (2 * Suc n) ls"
    by (simp add: drop_Suc tl_drop)
  have a: "payload_at (drop (2 * n) ls) 0 = payload_at ls (2 * n)"
    by (simp add: payload_at_drop)
  have b: "payload_at (tl (drop (2 * n) ls)) 0 = payload_at ls (2 * n + 1)"
    by (simp add: payload_at_tl payload_at_drop)
  show ?case
    using Cons.IH [OF Cons.prems, of "Suc n"] p1 p2 a b
    by (simp add: t store_pair_def)
qed

lemma store_pair_lookup:
  "ikey \<noteq> ekey \<Longrightarrow>
   map_of (hashes (store_pair ikey ekey ls (i, s) w) ikey) = (map_of (hashes w ikey))(str_int s \<mapsto> payload_at ls (2 * i)) \<and>
   map_of (hashes (store_pair ikey ekey ls (i, s) w) ekey) = (map_of (hashes w ekey))(str_int s \<mapsto> payload_at ls (2 * i + 1))"
  by (simp add: store_pair_def hset_def update_conv')

lemma fold_store_pair_lookup:
  "distinct seeds \<Longrightarrow> ikey \<noteq> ekey \<Longrightarrow>
   map_of (hashes (fold (store_pair ikey ekey ls) (enumerate n seeds) w) ikey) f =
     (case find (\<lambda>(i, s). str_int s = f) (enumerate n seeds) of
        Some (i, s) \<Rightarrow> Some (payload_at ls (2 * i))
      | None \<Rightarrow> map_of (hashes w ikey) f) \<and>
   map_of (hashes (fold (store_pair ikey ekey ls) (enumerate n seeds) w) ekey) f =
     (case find (\<lambda>(i, s). str_int s = f) (enumerate n seeds) of
        Some (i, s) \<Rightarrow> Some (payload_at ls (2 * i + 1))
      | None \<Rightarrow> map_of (hashes w ekey) f)"
proof (induction seeds arbitrary: n w)
  case Nil
  then show ?case by simp
next
  case (Cons s seeds)
  have none: "find (\<lambda>(i, s). str_int s = f) (enumerate (Suc n) seeds) = None" if f: "str_int s = f"
  proof -
    have "\<not> (case p of (i, s) \<Rightarrow> str_int s = f)" if p: "p \<in> set (enumerate (Suc n) seeds)" for p
    proof -
      have "snd p \<in> set (map snd (enumerate (Suc n) seeds))"
        using p by (metis image_eqI set_map)
      then have "snd p \<in> set seeds" by simp
      then have "snd p \<noteq> s" using Cons.prems(1) by auto
      then show ?thesis using f str_int_inj by (auto simp: case_prod_unfold)
    qed
    then show ?thesis by (fastforce simp: find_None_iff)
  qed
  have d: "distinct seeds" using Cons.prems(1) by simp
  note IH = Cons.IH [OF d Cons.prems(2), of "Suc n" "store_pair ikey ekey ls (n, s) w"]
  note sp = store_pair_lookup [OF Cons.prems(2), of ls n s w]
  show ?case
  proof (cases "str_int s = f")
    case True
    with none IH show ?thesis by (simp add: sp)
  next
    case False
    with IH show ?thesis by (simp add: sp split: option.splits)
  qed
qed

lemma find_enumerate_nth:
  "distinct seeds \<Longrightarrow> i < length seeds \<Longrightarrow>
   find (\<lambda>(j, s). str_int s = str_int (seeds ! i)) (enumerate 0 seeds) = Some (i, seeds ! i)"
proof -
  assume d: "distinct seeds" and i: "i < length seeds"
  have "find (\<lambda>(j, s). str_int s = str_int (seeds ! i)) (enumerate 0 seeds) = Some (i, seeds ! i)"
    unfolding find_Some_iff
  proof (intro exI [of _ i] conjI allI impI)
    show "i < length (enumerate 0 seeds)" using i by simp
    show "case enumerate 0 seeds ! i of (j, s) \<Rightarrow> str_int s = str_int (seeds ! i)"
      using i by (simp add: nth_enumerate_eq)
    show "(i, seeds ! i) = enumerate 0 seeds ! i"
      using i by (simp add: nth_enumerate_eq)
    fix j assume j: "j < i"
    then have "seeds ! j \<noteq> seeds ! i"
      using d i by (simp add: nth_eq_iff_index_eq)
    then show "\<not> (case enumerate 0 seeds ! j of (j, s) \<Rightarrow> str_int s = str_int (seeds ! i))"
      using i j str_int_inj by (auto simp: nth_enumerate_eq)
  qed
  then show ?thesis .
qed

lemma exit_status_ignored:
  "generate_instances (\<lambda>argv. (gen argv)\<lparr>exit_status := st\<rparr>) random_seeds k_range m_range c target_instances w =
   generate_instances gen random_seeds k_range m_range c target_instances w"
  by (simp add: generate_instances_def Let_def split: prod.splits option.splits bool.splits sum.splits)

text \<open>
  C3, as the code has it. For a batch of \<open>K\<close> distinct seeds and a stream of lines that
  \<^verbatim>\<open>readline\<close> and \<^verbatim>\<open>decode\<close> accept, the driver consumes the first \<open>2K\<close> lines and
  never fails: the \<open>i\<close>-th seed gets line \<open>2i\<close> as its Instance Record and line
  \<open>2i + 1\<close> as its Evaluation Record (stripped), and a line past the end of the stream
  counts as the empty string, so a short output is stored as empty payloads. The exit
  status of the generator is not looked at: the result of \<^verbatim>\<open>generate_instances\<close> is the
  same whatever it is.
\<close>

theorem pairing_integrity:
  assumes "readable ls" and "distinct seeds"
  shows "fst (read_pairs (instance_key c) (evaluation_key c) seeds ls w) = Inr (drop (2 * length seeds) ls) \<and>
    (\<forall>i < length seeds.
       map_of (hashes (snd (read_pairs (instance_key c) (evaluation_key c) seeds ls w)) (instance_key c))
         (str_int (seeds ! i)) = Some (payload_at ls (2 * i)) \<and>
       map_of (hashes (snd (read_pairs (instance_key c) (evaluation_key c) seeds ls w)) (evaluation_key c))
         (str_int (seeds ! i)) = Some (payload_at ls (2 * i + 1))) \<and>
    generate_instances (\<lambda>argv. (gen argv)\<lparr>exit_status := st\<rparr>) random_seeds k_range m_range c target_instances w' =
      generate_instances gen random_seeds k_range m_range c target_instances w'"
proof -
  have rp: "read_pairs (instance_key c) (evaluation_key c) seeds ls w =
     (Inr (drop (2 * length seeds) ls),
      fold (store_pair (instance_key c) (evaluation_key c) ls) (enumerate 0 seeds) w)"
    using read_pairs_shift [OF assms(1), of "instance_key c" "evaluation_key c" seeds 0 w] by simp
  note lk = fold_store_pair_lookup [OF assms(2) instance_key_not_evaluation_key, of c c ls 0 w]
  have "\<forall>i < length seeds.
       map_of (hashes (fold (store_pair (instance_key c) (evaluation_key c) ls) (enumerate 0 seeds) w) (instance_key c))
         (str_int (seeds ! i)) = Some (payload_at ls (2 * i)) \<and>
       map_of (hashes (fold (store_pair (instance_key c) (evaluation_key c) ls) (enumerate 0 seeds) w) (evaluation_key c))
         (str_int (seeds ! i)) = Some (payload_at ls (2 * i + 1))"
    using lk find_enumerate_nth [OF assms(2)] by simp
  then show ?thesis
    unfolding rp using exit_status_ignored by simp
qed

theorem pairing_integrity_witness:
  "fst (read_pairs (instance_key sample_config) (evaluation_key sample_config) [5]
          [''I5'' @ [CHR 0x0A]] empty_world) = Inr [] \<and>
   map_of (hashes (snd (read_pairs (instance_key sample_config) (evaluation_key sample_config) [5]
          [''I5'' @ [CHR 0x0A]] empty_world)) (instance_key sample_config)) ''5'' = Some ''I5'' \<and>
   map_of (hashes (snd (read_pairs (instance_key sample_config) (evaluation_key sample_config) [5]
          [''I5'' @ [CHR 0x0A]] empty_world)) (evaluation_key sample_config)) ''5'' = Some []"
proof -
  have h1: "readable [''I5'' @ [CHR 0x0A]]"
    by (simp add: readable_def READ_LIMIT_def)
  have h2: "distinct [5 :: int]"
    by simp
  show ?thesis
    using pairing_integrity [OF h1 h2, where c = sample_config and w = empty_world and gen = pair_generator]
    by (simp add: payload_at_def strip_def py_space_def str_int_def str_nat.simps digit_char_def)
qed

text \<open>
  The claim as the specification words it fails: a generator that prints nothing and
  exits with status 1, asked for two seeds, makes the driver report two new instances
  and store empty payloads for both; no failure is raised.
\<close>

theorem pairing_integrity_counterexample:
  "fst (generate_instances silent_generator [5, 7, 9] 1 1 sample_config 2 empty_world) = Inr (2, 2) \<and>
   hashes (snd (generate_instances silent_generator [5, 7, 9] 1 1 sample_config 2 empty_world))
     (instance_key sample_config) = [(''5'', []), (''7'', [])] \<and>
   hashes (snd (generate_instances silent_generator [5, 7, 9] 1 1 sample_config 2 empty_world))
     (evaluation_key sample_config) = [(''5'', []), (''7'', [])]"
proof -
  let ?w1 = "empty_world\<lparr>locks := (\<lambda>k. None)(''LOCK:BLOCK0:INSTANCE:1:2:3:4:5:6'' \<mapsto> (''0'', Some 10000000))\<rparr>"
  have lt: "\<not> 2 \<le> int (hlen empty_world (instance_key sample_config))"
    by (simp add: hlen_def empty_world_def)
  have s: "scan_blocks (instance_key sample_config) (block_range 0 (nat 2)) (None, 0) empty_world = ((Some True, 0), ?w1)"
    by (simp add: sample_instance_key sample_scan)
  have tg: "to_generate ?w1 (instance_key sample_config) [5, 7, 9] 0 (hlen empty_world (instance_key sample_config)) (nat 2)
      = [5, 7]"
    by (simp add: to_generate_def hexists_def hlen_def empty_world_def)
  let ?argv = "generator_args 1 1 sample_config [5, 7]"
  let ?w3 = "?w1\<lparr>printed := printed ?w1 @ [GotLock (instance_key sample_config) 0],
                  spawned := spawned ?w1 @ [?argv]\<rparr>"
  have rd: "readable []" by (simp add: readable_def)
  have rp: "read_pairs (instance_key sample_config) (evaluation_key sample_config) [5, 7]
      (stdout_lines (silent_generator ?argv)) ?w3 =
      (Inr [], fold (store_pair (instance_key sample_config) (evaluation_key sample_config) []) (enumerate 0 [5, 7]) ?w3)"
    using read_pairs_shift [OF rd, of "instance_key sample_config" "evaluation_key sample_config" "[5, 7]" 0 ?w3]
    by (simp add: silent_generator_def)
  have ne: "[5, 7] \<noteq> ([] :: int list)" by simp
  note g = generate_reads [where gen = silent_generator and k_range = 1 and m_range = 1,
      OF connect_empty lt s tg ne rp]
  show ?thesis
    unfolding g
    by (simp add: sample_instance_key sample_evaluation_key store_pair_def hset_def hlen_def payload_at_def
        strip_def str_int_def str_nat.simps digit_char_def empty_world_def)
qed

section \<open>The outcomes of one call\<close>

lemma scan_blocks_bound:
  "fst (fst (scan_blocks ikey offs acc w)) = None \<Longrightarrow> offs = [] \<and> fst acc = None"
proof (induction offs arbitrary: acc w)
  case Nil
  then show ?case by simp
next
  case (Cons x rest)
  show ?case
  proof (cases "live w (lock_key x ikey)")
    case False
    with Cons.prems show ?thesis by (simp add: claim_block_eq)
  next
    case True
    with Cons.prems
    have "fst (fst (scan_blocks ikey rest (Some False, x) (sleep 50 (snd (claim_block w (lock_key x ikey)))))) = None"
      by (simp add: claim_block_eq)
    from Cons.IH [OF this] show ?thesis by simp
  qed
qed

lemma generate_cases [consumes 0, case_names fault complete contended exhausted reads]:
  obtains
    (fault) e w0 where "connect w = (Some e, w0)"
      and "generate_instances gen random_seeds k_range m_range c target_instances w = (Inl e, w0)"
  | (complete) w0 where "connect w = (None, w0)" and "target_instances \<le> int (hlen w0 (instance_key c))"
      and "generate_instances gen random_seeds k_range m_range c target_instances w =
             (Inr (hlen w0 (instance_key c), 0), w0)"
  | (contended) w0 block w1 where "connect w = (None, w0)"
      and "\<not> target_instances \<le> int (hlen w0 (instance_key c))"
      and "scan_blocks (instance_key c) (block_range 0 (nat target_instances)) (None, 0) w0 = ((Some False, block), w1)"
      and "generate_instances gen random_seeds k_range m_range c target_instances w =
             (Inr (hlen w0 (instance_key c), - 1), w1)"
  | (exhausted) w0 block w1 where "connect w = (None, w0)"
      and "\<not> target_instances \<le> int (hlen w0 (instance_key c))"
      and "scan_blocks (instance_key c) (block_range 0 (nat target_instances)) (None, 0) w0 = ((Some True, block), w1)"
      and "to_generate w1 (instance_key c) random_seeds block (hlen w0 (instance_key c)) (nat target_instances) = []"
      and "generate_instances gen random_seeds k_range m_range c target_instances w =
             (Inr (hlen w0 (instance_key c), - 2), w1\<lparr>printed := printed w1 @ [GotLock (instance_key c) block]\<rparr>)"
  | (reads) w0 block w1 seeds r w4 where "connect w = (None, w0)"
      and "\<not> target_instances \<le> int (hlen w0 (instance_key c))"
      and "scan_blocks (instance_key c) (block_range 0 (nat target_instances)) (None, 0) w0 = ((Some True, block), w1)"
      and "to_generate w1 (instance_key c) random_seeds block (hlen w0 (instance_key c)) (nat target_instances) = seeds"
      and "seeds \<noteq> []"
      and "read_pairs (instance_key c) (evaluation_key c) seeds
             (stdout_lines (gen (generator_args k_range m_range c seeds)))
             (w1\<lparr>printed := printed w1 @ [GotLock (instance_key c) block],
                 spawned := spawned w1 @ [generator_args k_range m_range c seeds]\<rparr>) = (r, w4)"
      and "generate_instances gen random_seeds k_range m_range c target_instances w =
             (case r of
                Inl e \<Rightarrow> (Inl e, w4)
              | Inr rest \<Rightarrow> (Inr (hlen w4 (instance_key c), int (length seeds)),
                             w4\<lparr>locks := (locks w4)(lock_key block (instance_key c) := None)\<rparr>))"
proof -
  obtain f w0 where cn: "connect w = (f, w0)" by fastforce
  show thesis
  proof (cases f)
    case (Some e)
    note g = generate_fault [where gen = gen and k_range = k_range and m_range = m_range
        and random_seeds = random_seeds and c = c and target_instances = target_instances,
        OF cn [unfolded Some]]
    from cn [unfolded Some] g show thesis
      by (rule fault)
  next
    case None
    note cn = cn [unfolded None]
    show thesis
    proof (cases "target_instances \<le> int (hlen w0 (instance_key c))")
      case True
      note g = generate_complete [where gen = gen and k_range = k_range and m_range = m_range
        and random_seeds = random_seeds, OF cn True]
      from cn True g show thesis
        by (rule complete)
    next
      case False
      obtain h block w1 where sc:
        "scan_blocks (instance_key c) (block_range 0 (nat target_instances)) (None, 0) w0 = ((h, block), w1)"
        by (metis surj_pair)
      have pos: "0 < nat target_instances" using False by simp
      have "h \<noteq> None"
        using scan_blocks_bound [of "instance_key c" "block_range 0 (nat target_instances)" "(None, 0)" w0]
          block_range_empty [of "nat target_instances"] pos sc by auto
      then obtain b where h: "h = Some b" by blast
      show thesis
      proof (cases b)
        case False
        have sc': "scan_blocks (instance_key c) (block_range 0 (nat target_instances)) (None, 0) w0 =
            ((Some False, block), w1)"
          using sc h False by simp
        note lt = \<open>\<not> target_instances \<le> int (hlen w0 (instance_key c))\<close>
        note g = generate_contended [where gen = gen and k_range = k_range and m_range = m_range
            and random_seeds = random_seeds, OF cn lt sc']
        from cn lt sc' g show thesis
          by (rule contended)
      next
        case True
        have sc': "scan_blocks (instance_key c) (block_range 0 (nat target_instances)) (None, 0) w0 =
            ((Some True, block), w1)"
          using sc h True by simp
        note lt = \<open>\<not> target_instances \<le> int (hlen w0 (instance_key c))\<close>
        let ?seeds = "to_generate w1 (instance_key c) random_seeds block (hlen w0 (instance_key c)) (nat target_instances)"
        show thesis
        proof (cases "?seeds = []")
          case True
          note g = generate_nothing [where gen = gen and k_range = k_range and m_range = m_range,
              OF cn lt sc' True]
          from cn lt sc' True g show thesis
            by (rule exhausted)
        next
          case False
          obtain r w4 where rp: "read_pairs (instance_key c) (evaluation_key c) ?seeds
             (stdout_lines (gen (generator_args k_range m_range c ?seeds)))
             (w1\<lparr>printed := printed w1 @ [GotLock (instance_key c) block],
                 spawned := spawned w1 @ [generator_args k_range m_range c ?seeds]\<rparr>) = (r, w4)"
            by fastforce
          note g = generate_reads [where gen = gen and k_range = k_range and m_range = m_range,
                 OF cn lt sc' refl False rp]
          from cn lt sc' refl False rp g show thesis
            by (rule reads)
        qed
      qed
    qed
  qed
qed


lemma work_reports_append: "work_reports (a @ b) = work_reports a @ work_reports b"
  by (induction a rule: work_reports.induct) simp_all

lemma generate_effects:
  obtains g where "printed (snd (generate_instances gen random_seeds k_range m_range c target_instances w)) = printed w @ g"
    and "work_reports g = []"
proof (cases rule: generate_cases [of w gen random_seeds k_range m_range c target_instances])
  case (fault e w0)
  then have "printed (snd (generate_instances gen random_seeds k_range m_range c target_instances w)) = printed w @ []"
    using connect_frame [of w] by simp
  then show ?thesis using that by fastforce
next
  case (complete w0)
  then have "printed (snd (generate_instances gen random_seeds k_range m_range c target_instances w)) = printed w @ []"
    using connect_frame [of w] by simp
  then show ?thesis using that by fastforce
next
  case (contended w0 block w1)
  then have "printed (snd (generate_instances gen random_seeds k_range m_range c target_instances w)) = printed w @ []"
    using connect_frame [of w]
      scan_blocks_frame [of "instance_key c" "block_range 0 (nat target_instances)" "(None, 0)" w0]
    by simp
  then show ?thesis using that by fastforce
next
  case (exhausted w0 block w1)
  then have "printed (snd (generate_instances gen random_seeds k_range m_range c target_instances w)) =
      printed w @ [GotLock (instance_key c) block]"
    using connect_frame [of w]
      scan_blocks_frame [of "instance_key c" "block_range 0 (nat target_instances)" "(None, 0)" w0]
    by simp
  then show ?thesis using that [of "[GotLock (instance_key c) block]"] by simp
next
  case (reads w0 block w1 seeds r w4)
  let ?w3 = "w1\<lparr>printed := printed w1 @ [GotLock (instance_key c) block],
                 spawned := spawned w1 @ [generator_args k_range m_range c seeds]\<rparr>"
  have "printed (snd (read_pairs (instance_key c) (evaluation_key c) seeds
             (stdout_lines (gen (generator_args k_range m_range c seeds))) ?w3)) = printed ?w3"
    using read_pairs_frame by blast
  then have p4: "printed w4 = printed w1 @ [GotLock (instance_key c) block]"
    unfolding reads(6) by simp
  have p1: "printed w1 = printed w"
    using connect_frame [of w] reads(1,3)
      scan_blocks_frame [of "instance_key c" "block_range 0 (nat target_instances)" "(None, 0)" w0]
    by simp
  have "printed (snd (generate_instances gen random_seeds k_range m_range c target_instances w)) =
      printed w @ [GotLock (instance_key c) block]"
    unfolding reads(7) using p4 p1 by (cases r) simp_all
  then show ?thesis using that [of "[GotLock (instance_key c) block]"] by simp
qed

lemma sweep_reports:
  "\<exists>new. printed (snd (sweep gen random_seeds k_range m_range target_instances cfgs run_again w)) = printed w @ new \<and>
     (\<forall>b. fst (sweep gen random_seeds k_range m_range target_instances cfgs run_again w) = Inr b \<longrightarrow>
          b = (run_again \<or> list_ex (\<lambda>cur. cur \<noteq> 0) (work_reports new)))"
proof (induction cfgs arbitrary: run_again w)
  case Nil
  show ?case by simp
next
  case (Cons t rest)
  show ?case
  proof (cases "unpack_config t")
    case (Inl e)
    then show ?thesis by simp
  next
    case (Inr c)
    obtain res w1 where gi: "generate_instances gen random_seeds k_range m_range c target_instances w = (res, w1)"
      by fastforce
    obtain g where g: "printed w1 = printed w @ g" "work_reports g = []"
      using generate_effects [of gen random_seeds k_range m_range c target_instances w] gi by auto
    show ?thesis
    proof (cases res)
      case (Inl e)
      show ?thesis
      proof (cases "is_transient (exn_str e)")
        case True
        obtain new where n: "printed (snd (sweep gen random_seeds k_range m_range target_instances rest run_again (sleep 10000 w1)))
            = printed (sleep 10000 w1) @ new"
          "\<forall>b. fst (sweep gen random_seeds k_range m_range target_instances rest run_again (sleep 10000 w1)) = Inr b \<longrightarrow>
             b = (run_again \<or> list_ex (\<lambda>cur. cur \<noteq> 0) (work_reports new))"
          using Cons.IH [of run_again "sleep 10000 w1"] by blast
        have sw: "sweep gen random_seeds k_range m_range target_instances (t # rest) run_again w =
            sweep gen random_seeds k_range m_range target_instances rest run_again (sleep 10000 w1)"
          using Inr gi Inl True by simp
        show ?thesis
          unfolding sw using n g by (intro exI [of _ "g @ new"]) (simp add: sleep_def work_reports_append)
      next
        case False
        have sw: "sweep gen random_seeds k_range m_range target_instances (t # rest) run_again w = (Inl e, w1)"
          using Inr gi Inl False by simp
        show ?thesis
          unfolding sw using g by simp
      qed
    next
      case res: (Inr pc)
      obtain p cur where pc: "pc = (p, cur)" by (cases pc)
      let ?w1 = "w1\<lparr>printed := printed w1 @ [Progress t p cur]\<rparr>"
      obtain new where n: "printed (snd (sweep gen random_seeds k_range m_range target_instances rest (run_again \<or> cur \<noteq> 0) ?w1))
            = printed ?w1 @ new"
          "\<forall>b. fst (sweep gen random_seeds k_range m_range target_instances rest (run_again \<or> cur \<noteq> 0) ?w1) = Inr b \<longrightarrow>
             b = ((run_again \<or> cur \<noteq> 0) \<or> list_ex (\<lambda>cur. cur \<noteq> 0) (work_reports new))"
        using Cons.IH [of "run_again \<or> cur \<noteq> 0" ?w1] by blast
      have sw: "sweep gen random_seeds k_range m_range target_instances (t # rest) run_again w =
            sweep gen random_seeds k_range m_range target_instances rest (run_again \<or> cur \<noteq> 0) ?w1"
        using Inr gi res pc by simp
      show ?thesis
        unfolding sw using n g
        by (intro exI [of _ "g @ [Progress t p cur] @ new"]) (auto simp: work_reports_append)
    qed
  qed
qed

lemma transient_never_matches: "is_transient msg = False"
  by (auto simp: is_transient_def)


section \<open>The convergence condition\<close>

lemma generate_work:
  assumes a: "fst (generate_instances gen random_seeds k_range m_range c target_instances w) = Inr (p, cur)"
  shows "(cur = 0) = (target_instances \<le> int (hlen w (instance_key c))) \<and>
   (cur \<le> 0 \<longrightarrow> hashes (snd (generate_instances gen random_seeds k_range m_range c target_instances w)) = hashes w)"
proof (cases rule: generate_cases [of w gen random_seeds k_range m_range c target_instances])
  case (fault e w0)
  with a show ?thesis by simp
next
  case (complete w0)
  have "hashes w0 = hashes w" using connect_frame [of w] complete(1) by simp
  with a complete show ?thesis by (simp add: hlen_def)
next
  case (contended w0 block w1)
  have "hashes w0 = hashes w" using connect_frame [of w] contended(1) by simp
  moreover have "hashes w1 = hashes w0"
    using scan_blocks_frame [of "instance_key c" "block_range 0 (nat target_instances)" "(None, 0)" w0]
    by (simp add: contended(3))
  ultimately show ?thesis using a contended(2,4) by (simp add: hlen_def)
next
  case (exhausted w0 block w1)
  have "hashes w0 = hashes w" using connect_frame [of w] exhausted(1) by simp
  moreover have "hashes w1 = hashes w0"
    using scan_blocks_frame [of "instance_key c" "block_range 0 (nat target_instances)" "(None, 0)" w0]
    by (simp add: exhausted(3))
  ultimately show ?thesis using a exhausted(2,5) by (simp add: hlen_def)
next
  case (reads w0 block w1 seeds r w4)
  obtain rest where r: "r = Inr rest"
    using a unfolding reads(7) by (cases r) simp_all
  have "cur = int (length seeds)"
    using a unfolding reads(7) r by simp
  then have "0 < cur" using reads(5) by simp
  moreover have "\<not> target_instances \<le> int (hlen w (instance_key c))"
    using reads(1,2) connect_frame [of w] by (simp add: hlen_def)
  ultimately show ?thesis by simp
qed

lemma generate_contended_report:
  "fst (connect w) = None \<Longrightarrow> \<not> target_instances \<le> int (hlen w (instance_key c)) \<Longrightarrow>
   fst (fst (scan_blocks (instance_key c) (block_range 0 (nat target_instances)) (None, 0) (snd (connect w)))) = Some False \<Longrightarrow>
   fst (generate_instances gen random_seeds k_range m_range c target_instances w) = Inr (hlen w (instance_key c), - 1)"
proof -
  assume a: "fst (connect w) = None" "\<not> target_instances \<le> int (hlen w (instance_key c))"
    "fst (fst (scan_blocks (instance_key c) (block_range 0 (nat target_instances)) (None, 0) (snd (connect w)))) = Some False"
  obtain w0 where cn: "connect w = (None, w0)"
    using a(1) by (cases "connect w") simp
  have hl: "hlen w0 (instance_key c) = hlen w (instance_key c)"
    using connect_frame [of w] cn by (simp add: hlen_def)
  obtain block w1 where sc: "scan_blocks (instance_key c) (block_range 0 (nat target_instances)) (None, 0) w0 =
      ((Some False, block), w1)"
    using a(3) cn by (metis fst_conv snd_conv surj_pair)
  show ?thesis
    using generate_contended [where gen = gen and random_seeds = random_seeds and k_range = k_range
        and m_range = m_range, OF cn _ sc] a(2) hl by simp
qed

lemma sweep_run_again:
  "fst (sweep gen random_seeds k_range m_range target_instances cfgs False w) = Inr b \<Longrightarrow>
   b = list_ex (\<lambda>cur. cur \<noteq> 0)
         (work_reports (drop (length (printed w))
            (printed (snd (sweep gen random_seeds k_range m_range target_instances cfgs False w)))))"
  using sweep_reports [of gen random_seeds k_range m_range target_instances cfgs False w] by auto

text \<open>
  C5, as the code has it. After a pass that no exception left, \<^verbatim>\<open>run_again\<close> is true
  exactly when some progress line of the pass reports a \<^verbatim>\<open>current_work\<close> other than 0;
  the loop then makes another pass, and otherwise it ends normally. A call reports 0
  exactly when the configuration is already complete; a fully contended configuration
  reports \<open>-1\<close> (and a claimed block with no seed left \<open>-2\<close>): such a report writes no
  Instance Record, and still makes the loop run another pass.
\<close>

theorem convergence_condition:
  "(fst (sweep gen random_seeds k_range m_range target_instances cfgs False w) = Inr b \<longrightarrow>
      b = list_ex (\<lambda>cur. cur \<noteq> 0)
            (work_reports (drop (length (printed w))
               (printed (snd (sweep gen random_seeds k_range m_range target_instances cfgs False w)))))) \<and>
   (fst (sweep gen random_seeds k_range m_range target_instances cfgs False w) = Inr True \<longrightarrow>
      convergence_loop gen random_seeds k_range m_range target_instances cfgs w =
      convergence_loop gen random_seeds k_range m_range target_instances cfgs
        (snd (sweep gen random_seeds k_range m_range target_instances cfgs False w))) \<and>
   (fst (sweep gen random_seeds k_range m_range target_instances cfgs False w) = Inr False \<longrightarrow>
      convergence_loop gen random_seeds k_range m_range target_instances cfgs w =
      Some (None, snd (sweep gen random_seeds k_range m_range target_instances cfgs False w))) \<and>
   (fst (generate_instances gen random_seeds k_range m_range c target_instances w) = Inr (p, cur) \<longrightarrow>
      (cur = 0) = (target_instances \<le> int (hlen w (instance_key c))) \<and>
      (cur \<le> 0 \<longrightarrow>
         hashes (snd (generate_instances gen random_seeds k_range m_range c target_instances w)) = hashes w)) \<and>
   (fst (connect w) = None \<and> \<not> target_instances \<le> int (hlen w (instance_key c)) \<and>
    fst (fst (scan_blocks (instance_key c) (block_range 0 (nat target_instances)) (None, 0) (snd (connect w))))
      = Some False \<longrightarrow>
      fst (generate_instances gen random_seeds k_range m_range c target_instances w) =
        Inr (hlen w (instance_key c), - 1))"
proof -
  obtain r w1 where sw: "sweep gen random_seeds k_range m_range target_instances cfgs False w = (r, w1)"
    by fastforce
  have loop_again: "r = Inr True \<Longrightarrow>
      convergence_loop gen random_seeds k_range m_range target_instances cfgs w =
      convergence_loop gen random_seeds k_range m_range target_instances cfgs w1"
    by (subst convergence_loop.simps) (simp add: sw)
  have loop_done: "r = Inr False \<Longrightarrow>
      convergence_loop gen random_seeds k_range m_range target_instances cfgs w = Some (None, w1)"
    by (subst convergence_loop.simps) (simp add: sw)
  show ?thesis
    using sweep_run_again [of gen random_seeds k_range m_range target_instances cfgs w b]
      generate_work [of gen random_seeds k_range m_range c target_instances w p cur]
      generate_contended_report [of w target_instances c gen random_seeds k_range m_range]
      loop_again loop_done
    unfolding sw by simp
qed


lemma connect_locked: "connect locked_world = (None, locked_world)"
  by (simp add: connect_def locked_world_def empty_world_def)

lemma unpack_sample: "unpack_config [1, 2, 3, 4, 5, 6] = Inr sample_config"
  by (simp add: sample_config_def)

lemma locked_scan:
  "scan_blocks ''INSTANCE:1:2:3:4:5:6'' (block_range 0 1) (None, 0) locked_world =
     ((Some False, 0), locked_world\<lparr>clock := 50\<rparr>)"
proof -
  have b: "block_range 0 1 = [0]"
    by (simp add: block_range.simps BLOCK_SIZE_def)
  show ?thesis
    by (subst b) (simp add: sample_lock_key claim_block_eq live_def locked_world_def
        empty_world_def LOCK_TIME_def sleep_def)
qed

lemma locked_generate:
  "generate_instances pair_generator [5] 1 1 sample_config 1 locked_world =
     (Inr (0, - 1), locked_world\<lparr>clock := 50\<rparr>)"
proof -
  have lt: "\<not> 1 \<le> int (hlen locked_world (instance_key sample_config))"
    by (simp add: hlen_def locked_world_def empty_world_def)
  have sc: "scan_blocks (instance_key sample_config) (block_range 0 (nat 1)) (None, 0) locked_world =
      ((Some False, 0), locked_world\<lparr>clock := 50\<rparr>)"
    using locked_scan by (simp add: sample_instance_key)
  show ?thesis
    using generate_contended [where gen = pair_generator and random_seeds = "[5]" and k_range = 1
        and m_range = 1, OF connect_locked lt sc]
    by (simp add: hlen_def locked_world_def empty_world_def)
qed

lemma locked_sweep:
  "sweep pair_generator [5] 1 1 1 [[1, 2, 3, 4, 5, 6]] False locked_world =
     (Inr True, locked_world\<lparr>clock := 50, printed := [Progress [1, 2, 3, 4, 5, 6] 0 (- 1)]\<rparr>)"
  by (simp add: sample_config_def [symmetric] locked_generate) (simp add: locked_world_def empty_world_def)

lemma complete_generate:
  "generate_instances pair_generator [5] 1 1 sample_config 0 empty_world = (Inr (0, 0), empty_world)"
  using generate_complete [where gen = pair_generator and random_seeds = "[5]" and k_range = 1
        and m_range = 1 and c = sample_config and target_instances = 0, OF connect_empty]
  by (simp add: hlen_def empty_world_def)

lemma complete_sweep:
  "sweep pair_generator [5] 1 1 0 [[1, 2, 3, 4, 5, 6]] False empty_world =
     (Inr False, empty_world\<lparr>printed := [Progress [1, 2, 3, 4, 5, 6] 0 0]\<rparr>)"
  by (simp add: sample_config_def [symmetric] complete_generate) (simp add: empty_world_def)

theorem convergence_condition_witness:
  "fst (sweep pair_generator [5] 1 1 1 [[1, 2, 3, 4, 5, 6]] False locked_world) = Inr True \<and>
   convergence_loop pair_generator [5] 1 1 1 [[1, 2, 3, 4, 5, 6]] locked_world =
     convergence_loop pair_generator [5] 1 1 1 [[1, 2, 3, 4, 5, 6]]
       (snd (sweep pair_generator [5] 1 1 1 [[1, 2, 3, 4, 5, 6]] False locked_world)) \<and>
   fst (generate_instances pair_generator [5] 1 1 sample_config 1 locked_world) = Inr (0, - 1) \<and>
   hashes (snd (generate_instances pair_generator [5] 1 1 sample_config 1 locked_world)) = hashes locked_world \<and>
   fst (sweep pair_generator [5] 1 1 0 [[1, 2, 3, 4, 5, 6]] False empty_world) = Inr False \<and>
   convergence_loop pair_generator [5] 1 1 0 [[1, 2, 3, 4, 5, 6]] empty_world =
     Some (None, snd (sweep pair_generator [5] 1 1 0 [[1, 2, 3, 4, 5, 6]] False empty_world))"
proof -
  have h1: "fst (sweep pair_generator [5] 1 1 1 [[1, 2, 3, 4, 5, 6]] False locked_world) = Inr True"
    by (simp add: locked_sweep del: sweep.simps)
  have h2: "fst (generate_instances pair_generator [5] 1 1 sample_config 1 locked_world) = Inr (0, - 1)"
    by (simp add: locked_generate)
  have h3: "fst (sweep pair_generator [5] 1 1 0 [[1, 2, 3, 4, 5, 6]] False empty_world) = Inr False"
    by (simp add: complete_sweep del: sweep.simps)
  have h4: "fst (connect locked_world) = None \<and>
      \<not> 1 \<le> int (hlen locked_world (instance_key sample_config)) \<and>
      fst (fst (scan_blocks (instance_key sample_config) (block_range 0 (nat 1)) (None, 0) (snd (connect locked_world))))
        = Some False"
    using locked_scan by (simp add: connect_locked sample_instance_key hlen_def) (simp add: locked_world_def empty_world_def)
  note a = convergence_condition [where gen = pair_generator and random_seeds = "[5]" and k_range = 1
      and m_range = 1 and target_instances = 1 and cfgs = "[[1, 2, 3, 4, 5, 6]]" and w = locked_world
      and b = True and c = sample_config and p = 0 and cur = "- 1"]
  note b = convergence_condition [where gen = pair_generator and random_seeds = "[5]" and k_range = 1
      and m_range = 1 and target_instances = 0 and cfgs = "[[1, 2, 3, 4, 5, 6]]" and w = empty_world
      and b = False and c = sample_config and p = 0 and cur = 0]
  show ?thesis
    using a b h1 h2 h3 h4 by (simp del: sweep.simps)
qed

text \<open>
  The claim as the specification words it fails: with the lock of the only block held
  by another worker, the pass writes no Instance Record, reports \<open>-1\<close> for the
  configuration, and leaves \<^verbatim>\<open>run_again\<close> true.
\<close>

theorem convergence_condition_counterexample:
  "fst (sweep pair_generator [5] 1 1 1 [[1, 2, 3, 4, 5, 6]] False locked_world) = Inr True \<and>
   hashes (snd (sweep pair_generator [5] 1 1 1 [[1, 2, 3, 4, 5, 6]] False locked_world)) = hashes locked_world \<and>
   printed (snd (sweep pair_generator [5] 1 1 1 [[1, 2, 3, 4, 5, 6]] False locked_world)) =
     [Progress [1, 2, 3, 4, 5, 6] 0 (- 1)]"
  by (simp add: locked_sweep del: sweep.simps)

section \<open>Sample runs of the script\<close>

lemmas literal_eval = py_int_def strip_def py_space_def valid_literal_def is_digit_def digits_val_def
  digit_val_def Let_def

lemma py_int_samples: "py_int ''1'' = Inr 1" "py_int ''2'' = Inr 2" "py_int ''3'' = Inr 3"
  "py_int ''4'' = Inr 4" "py_int ''5'' = Inr 5" "py_int ''6'' = Inr 6" "py_int ''7'' = Inr 7"
  "py_int ''9'' = Inr 9"
  by (simp_all add: literal_eval)

lemma sample_arguments:
  "argument sample_argv 1 = Inr ''configs.csv''" "int_argument sample_argv 2 = Inr 2"
  "int_argument sample_argv 3 = Inr 1" "int_argument sample_argv 4 = Inr 1"
  by (simp_all add: argument_def int_argument_def sample_argv_def py_int_samples)

lemma sample_seeds: "load_seeds ''5 7 9'' = Inr [5, 7, 9]"
  by (simp add: load_seeds_def seed_tokens_def py_int_samples)

lemma sample_configs: "load_configs sample_rows = Inr [[1, 2, 3, 4, 5, 6]]"
  by (simp add: load_configs_def sample_rows_def strip_def py_space_def py_int_samples)

lemma sample_script_body:
  "script_body gen sample_argv ''5 7 9'' sample_rows w =
     convergence_loop gen [5, 7, 9] 1 1 2 [[1, 2, 3, 4, 5, 6]] (sleep (HEAT_UP_TIME * 1000) w)"
  unfolding script_body_def Let_def sample_arguments sample_seeds sample_configs by simp


section \<open>Errors in the loop\<close>

lemma loop_raises:
  "sweep gen random_seeds k_range m_range target_instances cfgs False w = (Inl e, w1) \<Longrightarrow>
   convergence_loop gen random_seeds k_range m_range target_instances cfgs w = Some (Some e, w1)"
  by (subst convergence_loop.simps) simp

lemma script_exit_code: "script gen argv seed_text rows w = Some out \<Longrightarrow> exit_code out = 0"
  by (auto simp: script_def split: option.splits prod.splits)

text \<open>
  C4, as the code has it. An error of \<^verbatim>\<open>generate_instances\<close> that the classification
  does not accept as transient leaves the pass at once, the configurations after it
  untouched; it ends the loop, and the script prints its traceback and ends: whenever
  the script ends, after an error or not, the exit status of the process is 0.
\<close>

theorem fatal_errors:
  "(unpack_config t = Inr c \<and>
    generate_instances gen random_seeds k_range m_range c target_instances w = (Inl e, w1) \<and>
    \<not> is_transient (exn_str e) \<longrightarrow>
      sweep gen random_seeds k_range m_range target_instances (t # rest) run_again w = (Inl e, w1)) \<and>
   (sweep gen random_seeds k_range m_range target_instances cfgs False w = (Inl e, w1) \<longrightarrow>
      convergence_loop gen random_seeds k_range m_range target_instances cfgs w = Some (Some e, w1)) \<and>
   (script_body gen argv seed_text rows w = Some (Some e, w1) \<longrightarrow>
      script gen argv seed_text rows w = Some \<lparr>exit_code = 0, traceback = Some e, final = w1\<rparr>) \<and>
   (script gen argv seed_text rows w = Some out \<longrightarrow> exit_code out = 0)"
  using loop_raises [of gen random_seeds k_range m_range target_instances cfgs w e w1]
    script_exit_code [of gen argv seed_text rows w out]
  by (simp add: script_def)

lemma refused_generate:
  "generate_instances gen random_seeds k_range m_range c target_instances
     (empty_world\<lparr>faults := [Some ''Connection refused''], clock := t\<rparr>) =
   (Inl (ConnectionError ''Connection refused''), empty_world\<lparr>clock := t\<rparr>)"
  by (rule generate_fault) (simp add: connect_def empty_world_def)

theorem fatal_errors_witness:
  "sweep pair_generator [5, 7, 9] 1 1 2 [[1, 2, 3, 4, 5, 6], [6, 5, 4, 3, 2, 1]] False
     (empty_world\<lparr>faults := [Some ''Connection refused''], clock := 30000\<rparr>) =
     (Inl (ConnectionError ''Connection refused''), empty_world\<lparr>clock := 30000\<rparr>) \<and>
   convergence_loop pair_generator [5, 7, 9] 1 1 2 [[1, 2, 3, 4, 5, 6], [6, 5, 4, 3, 2, 1]]
     (empty_world\<lparr>faults := [Some ''Connection refused''], clock := 30000\<rparr>) =
     Some (Some (ConnectionError ''Connection refused''), empty_world\<lparr>clock := 30000\<rparr>) \<and>
   script pair_generator sample_argv ''5 7 9'' sample_rows (empty_world\<lparr>faults := [Some ''Connection refused'']\<rparr>) =
     Some \<lparr>exit_code = 0, traceback = Some (ConnectionError ''Connection refused''),
           final = empty_world\<lparr>clock := 30000\<rparr>\<rparr>"
proof -
  let ?w = "empty_world\<lparr>faults := [Some ''Connection refused''], clock := 30000\<rparr>"
  let ?e = "ConnectionError ''Connection refused''"
  let ?w1 = "empty_world\<lparr>clock := 30000\<rparr>"
  have h1: "unpack_config [1, 2, 3, 4, 5, 6] = Inr sample_config \<and>
      generate_instances pair_generator [5, 7, 9] 1 1 sample_config 2 ?w = (Inl ?e, ?w1) \<and>
      \<not> is_transient (exn_str ?e)"
    by (intro conjI unpack_sample refused_generate) (simp add: transient_never_matches)
  note a = fatal_errors [where t = "[1, 2, 3, 4, 5, 6]" and c = sample_config and gen = pair_generator
      and random_seeds = "[5, 7, 9]" and k_range = 1 and m_range = 1 and target_instances = 2 and w = ?w
      and e = ?e and ?w1.0 = ?w1 and rest = "[[6, 5, 4, 3, 2, 1]]" and run_again = False
      and cfgs = "[[1, 2, 3, 4, 5, 6], [6, 5, 4, 3, 2, 1]]"]
  have s1: "sweep pair_generator [5, 7, 9] 1 1 2 [[1, 2, 3, 4, 5, 6], [6, 5, 4, 3, 2, 1]] False ?w = (Inl ?e, ?w1)"
    using a h1 by blast
  have l1: "convergence_loop pair_generator [5, 7, 9] 1 1 2 [[1, 2, 3, 4, 5, 6], [6, 5, 4, 3, 2, 1]] ?w =
      Some (Some ?e, ?w1)"
    using a s1 by blast
  have s2: "sweep pair_generator [5, 7, 9] 1 1 2 [[1, 2, 3, 4, 5, 6]] False ?w = (Inl ?e, ?w1)"
    using fatal_errors [where t = "[1, 2, 3, 4, 5, 6]" and c = sample_config and gen = pair_generator
      and random_seeds = "[5, 7, 9]" and k_range = 1 and m_range = 1 and target_instances = 2 and w = ?w
      and e = ?e and ?w1.0 = ?w1 and rest = "[]" and run_again = False] h1 by blast
  have b: "script_body pair_generator sample_argv ''5 7 9'' sample_rows
      (empty_world\<lparr>faults := [Some ''Connection refused'']\<rparr>) = Some (Some ?e, ?w1)"
    unfolding sample_script_body
    using loop_raises [OF s2] by (simp add: sleep_def HEAT_UP_TIME_def empty_world_def)
  have c: "script pair_generator sample_argv ''5 7 9'' sample_rows (empty_world\<lparr>faults := [Some ''Connection refused'']\<rparr>) =
     Some \<lparr>exit_code = 0, traceback = Some ?e, final = ?w1\<rparr>"
    using fatal_errors [where gen = pair_generator and argv = sample_argv and seed_text = "''5 7 9''"
        and rows = sample_rows and w = "empty_world\<lparr>faults := [Some ''Connection refused'']\<rparr>"
        and e = ?e and ?w1.0 = ?w1] b by blast
  show ?thesis
    using s1 l1 c by blast
qed


lemma scan_first_free:
  "\<not> live w (lock_key 0 ikey) \<Longrightarrow> 0 < target \<Longrightarrow>
   scan_blocks ikey (block_range 0 target) acc w = ((Some True, 0), snd (claim_block w (lock_key 0 ikey)))"
  by (subst block_range.simps) (simp add: claim_block_eq)

lemma read_pairs_undecodable:
  "read_pairs ikey ekey (s # seeds) ([CHR 0xFF, CHR 0x0A] # ls) w =
     (Inl (UnicodeDecodeError ''ordinal not in range(128)''), w)"
  by (simp add: read_payload_def readline_def READ_LIMIT_def decode_ascii_def)

lemma garbled_generate:
  "fst (generate_instances garbled_generator [5, 7, 9] 1 1 sample_config 2 (empty_world\<lparr>clock := 30000\<rparr>)) =
     Inl (UnicodeDecodeError ''ordinal not in range(128)'')"
proof -
  let ?w0 = "empty_world\<lparr>clock := 30000\<rparr>"
  let ?ikey = "instance_key sample_config"
  let ?w1 = "snd (claim_block ?w0 (lock_key 0 ?ikey))"
  have cn: "connect ?w0 = (None, ?w0)"
    by (simp add: connect_def empty_world_def)
  have lt: "\<not> 2 \<le> int (hlen ?w0 ?ikey)"
    by (simp add: hlen_def empty_world_def)
  have "\<not> live ?w0 (lock_key 0 ?ikey)"
    by (simp add: live_def empty_world_def)
  then have sc: "scan_blocks ?ikey (block_range 0 (nat 2)) (None, 0) ?w0 = ((Some True, 0), ?w1)"
    by (intro scan_first_free) simp_all
  have tg: "to_generate ?w1 ?ikey [5, 7, 9] 0 (hlen ?w0 ?ikey) (nat 2) = [5, 7]"
    by (simp add: to_generate_def hexists_def hlen_def claim_block_eq empty_world_def)
  have ne: "[5, 7] \<noteq> ([] :: int list)" by simp
  let ?w3 = "?w1\<lparr>printed := printed ?w1 @ [GotLock ?ikey 0],
                  spawned := spawned ?w1 @ [generator_args 1 1 sample_config [5, 7]]\<rparr>"
  have rp: "read_pairs ?ikey (evaluation_key sample_config) [5, 7]
      (stdout_lines (garbled_generator (generator_args 1 1 sample_config [5, 7]))) ?w3 =
      (Inl (UnicodeDecodeError ''ordinal not in range(128)''), ?w3)"
    unfolding garbled_generator_def by (simp add: read_pairs_undecodable del: read_pairs.simps)
  show ?thesis
    using generate_reads [where gen = garbled_generator and k_range = 1 and m_range = 1,
        OF cn lt sc tg ne rp]
    by simp
qed

text \<open>
  The claim as the specification words it fails: a generator whose output is not ASCII
  makes \<^verbatim>\<open>decode\<close> raise, an error that is not a connection failure of any kind; the
  script prints the traceback and the process ends with exit status 0.
\<close>

theorem fatal_errors_counterexample:
  "map_option exit_code (script garbled_generator sample_argv ''5 7 9'' sample_rows empty_world) = Some 0 \<and>
   map_option traceback (script garbled_generator sample_argv ''5 7 9'' sample_rows empty_world) =
     Some (Some (UnicodeDecodeError ''ordinal not in range(128)''))"
proof -
  let ?w0 = "empty_world\<lparr>clock := 30000\<rparr>"
  let ?e = "UnicodeDecodeError ''ordinal not in range(128)''"
  obtain r w1 where g: "generate_instances garbled_generator [5, 7, 9] 1 1 sample_config 2 ?w0 = (r, w1)"
    by fastforce
  have r: "r = Inl ?e"
    using garbled_generate g by simp
  have "sweep garbled_generator [5, 7, 9] 1 1 2 [[1, 2, 3, 4, 5, 6]] False ?w0 = (Inl ?e, w1)"
    using g r by (simp add: sample_config_def [symmetric] transient_never_matches)
  then have "convergence_loop garbled_generator [5, 7, 9] 1 1 2 [[1, 2, 3, 4, 5, 6]] ?w0 = Some (Some ?e, w1)"
    by (rule loop_raises)
  moreover have "sleep (HEAT_UP_TIME * 1000) empty_world = ?w0"
    by (simp add: sleep_def HEAT_UP_TIME_def empty_world_def)
  ultimately have "script_body garbled_generator sample_argv ''5 7 9'' sample_rows empty_world = Some (Some ?e, w1)"
    unfolding sample_script_body by simp
  then show ?thesis
    by (simp add: script_def)
qed

section \<open>Loading\<close>

lemma map_int_Inr: "(map_int ts = Inr is) = (map py_int ts = map Inr is)"
proof (induction ts arbitrary: "is")
  case Nil
  then show ?case by auto
next
  case (Cons t ts)
  show ?case
  proof (cases "py_int t")
    case (Inl e)
    then show ?thesis by (cases "is") auto
  next
    case (Inr i)
    show ?thesis
    proof (cases "map_int ts")
      case (Inl e)
      have "map py_int ts \<noteq> map Inr (tl is)"
        using Cons.IH [of "tl is"] Inl by simp
      then show ?thesis using Inr Inl by (cases "is") auto
    next
      case r: (Inr js)
      then have "map py_int ts = map Inr js" using Cons.IH by simp
      then show ?thesis using Inr r by (cases "is") (auto simp: inj_map_eq_map)
    qed
  qed
qed

lemma map_int_Inl: "map_int ts = Inl e \<Longrightarrow> \<exists>t \<in> set ts. py_int t = Inl e"
  by (induction ts) (auto split: sum.splits)

lemma load_rows_Inr:
  "(load_rows rows = Inr cfgs) = (map (map (\<lambda>f. py_int (strip f))) rows = map (map Inr) cfgs)"
proof (induction rows arbitrary: cfgs)
  case Nil
  then show ?case by auto
next
  case (Cons row rows)
  show ?case
  proof (cases "map_int (map strip row)")
    case (Inl e)
    then have "\<And>is. map py_int (map strip row) \<noteq> map Inr is"
      using map_int_Inr [of "map strip row"] by simp
    then show ?thesis using Inl by (cases cfgs) (auto simp: comp_def)
  next
    case (Inr t)
    then have t: "map (\<lambda>f. py_int (strip f)) row = map Inr t"
      using map_int_Inr [of "map strip row" t] by (simp add: comp_def)
    show ?thesis
    proof (cases "load_rows rows")
      case (Inl e)
      have "map (map (\<lambda>f. py_int (strip f))) rows \<noteq> map (map Inr) (tl cfgs)"
        using Cons.IH [of "tl cfgs"] Inl by simp
      then show ?thesis using Inr Inl by (cases cfgs) auto
    next
      case r: (Inr ts)
      then have "map (map (\<lambda>f. py_int (strip f))) rows = map (map Inr) ts" using Cons.IH by simp
      then show ?thesis using Inr r t
        by (cases cfgs) (auto simp: inj_map_eq_map)
    qed
  qed
qed

lemma load_rows_Inl:
  "load_rows rows = Inl e \<Longrightarrow> \<exists>row \<in> set rows. \<exists>f \<in> set row. py_int (strip f) = Inl e"
proof (induction rows)
  case Nil
  then show ?case by simp
next
  case (Cons row rows)
  show ?case
  proof (cases "map_int (map strip row)")
    case (Inl e')
    with Cons.prems have "e' = e" by simp
    with Inl map_int_Inl [of "map strip row" e] show ?thesis by auto
  next
    case (Inr t)
    with Cons show ?thesis by (auto split: sum.splits)
  qed
qed

lemma split_on_concat: "concat (split_on sep s) = filter (\<lambda>c. c \<noteq> sep) s"
  by (induction s) (auto split: list.splits)

lemma split_on_pieces: "piece \<in> set (split_on sep s) \<Longrightarrow> sep \<notin> set piece"
  by (induction s arbitrary: piece) (auto split: list.splits if_splits)

lemma concat_nonempty: "concat (filter (\<lambda>i. i \<noteq> []) xs) = concat xs"
  by (induction xs) auto


lemma seed_tokens_concat:
  "concat (seed_tokens txt) = filter (\<lambda>c. c \<noteq> CHR '' '' \<and> c \<noteq> CHR 0x09 \<and> c \<noteq> CHR 0x0A) txt"
proof -
  have "filter (\<lambda>c. c \<noteq> CHR '' '') (map (\<lambda>c. if c = CHR 0x09 \<or> c = CHR 0x0A then CHR '' '' else c) xs) =
      filter (\<lambda>c. c \<noteq> CHR '' '' \<and> c \<noteq> CHR 0x09 \<and> c \<noteq> CHR 0x0A) xs" for xs
    by (induction xs) auto
  then show ?thesis
    by (simp add: seed_tokens_def concat_nonempty split_on_concat)
qed


lemma split_on_subset: "piece \<in> set (split_on sep s) \<Longrightarrow> set piece \<subseteq> set s"
proof -
  assume "piece \<in> set (split_on sep s)"
  then have "set piece \<subseteq> set (concat (split_on sep s))" by auto
  also have "\<dots> \<subseteq> set s" unfolding split_on_concat by simp
  finally show ?thesis .
qed

lemma blanked_chars:
  "c \<in> set (map (\<lambda>c. if c = CHR 0x09 \<or> c = CHR 0x0A then CHR '' '' else c) xs) \<Longrightarrow>
   c \<noteq> CHR 0x09 \<and> c \<noteq> CHR 0x0A"
proof (induction xs)
  case Nil
  then show ?case by simp
next
  case (Cons x xs)
  show ?case
  proof (cases "c = (if x = CHR 0x09 \<or> x = CHR 0x0A then CHR '' '' else x)")
    case True
    then show ?thesis by (cases "x = CHR 0x09 \<or> x = CHR 0x0A") simp_all
  next
    case False
    with Cons show ?thesis by simp
  qed
qed

lemma seed_tokens_pieces:
  "list_all (\<lambda>t. t \<noteq> [] \<and> list_all (\<lambda>c. c \<noteq> CHR '' '' \<and> c \<noteq> CHR 0x09 \<and> c \<noteq> CHR 0x0A) t) (seed_tokens s)"
proof -
  let ?m = "map (\<lambda>c. if c = CHR 0x09 \<or> c = CHR 0x0A then CHR '' '' else c) s"
  have "t \<noteq> [] \<and> (\<forall>c \<in> set t. c \<noteq> CHR '' '' \<and> c \<noteq> CHR 0x09 \<and> c \<noteq> CHR 0x0A)"
    if t: "t \<in> set (seed_tokens s)" for t
  proof -
    have p: "t \<in> set (split_on CHR '' '' ?m)" and ne: "t \<noteq> []"
      using t unfolding seed_tokens_def by simp_all
    have a: "CHR '' '' \<notin> set t" using p by (rule split_on_pieces)
    have b: "set t \<subseteq> set ?m" using p by (rule split_on_subset)
    have "c \<noteq> CHR '' '' \<and> c \<noteq> CHR 0x09 \<and> c \<noteq> CHR 0x0A" if c: "c \<in> set t" for c
    proof -
      have "c \<in> set ?m" using b c by blast
      then have "c \<noteq> CHR 0x09 \<and> c \<noteq> CHR 0x0A" by (rule blanked_chars)
      moreover have "c \<noteq> CHR '' ''" using a c by blast
      ultimately show ?thesis by blast
    qed
    then show ?thesis using ne by blast
  qed
  then show ?thesis
    unfolding list_all_iff by blast
qed

lemma digit_char_digit: "d < 10 \<Longrightarrow> is_digit (digit_char d) \<and> \<not> py_space (digit_char d) \<and>
    digit_char d \<noteq> CHR ''_'' \<and> digit_char d \<noteq> CHR ''+''"
  using digit_cases [of d] by (auto simp: digit_char_def is_digit_def py_space_def)

lemma str_nat_digits: "c \<in> set (str_nat n) \<Longrightarrow> is_digit c \<and> \<not> py_space c \<and> c \<noteq> CHR ''_'' \<and> c \<noteq> CHR ''+''"
proof (induction n rule: str_nat.induct)
  case (1 n)
  show ?case
  proof (cases "n < 10")
    case True
    with 1(2) show ?thesis
      by (subst (asm) str_nat.simps) (simp add: digit_char_digit)
  next
    case False
    with 1 show ?thesis
      by (subst (asm) (2) str_nat.simps) (auto simp: digit_char_digit)
  qed
qed

lemma no_underscore_ok: "CHR ''_'' \<notin> set s \<Longrightarrow> no_double_underscore s"
  by (induction s rule: no_double_underscore.induct) auto

lemma strip_tight: "s \<noteq> [] \<Longrightarrow> \<not> py_space (hd s) \<Longrightarrow> \<not> py_space (last s) \<Longrightarrow> strip s = s"
proof -
  assume a: "s \<noteq> []" "\<not> py_space (hd s)" "\<not> py_space (last s)"
  have "dropWhile py_space s = s" using a(1,2) by (cases s) simp_all
  moreover have "dropWhile py_space (rev s) = rev s"
    using a(1,3) by (cases "rev s") (simp_all add: last_rev [symmetric] hd_rev)
  ultimately show ?thesis by (simp add: strip_def)
qed

lemma py_int_str_nat: "valid_literal (str_nat n) \<and> filter (\<lambda>c. c \<noteq> CHR ''_'') (str_nat n) = str_nat n"
proof -
  have ne: "str_nat n \<noteq> []" by (rule str_nat_nonempty)
  have all: "\<forall>c \<in> set (str_nat n). is_digit c \<and> c \<noteq> CHR ''_''"
    using str_nat_digits by blast
  have "is_digit (hd (str_nat n))" "is_digit (last (str_nat n))"
    using ne all by auto
  moreover have "no_double_underscore (str_nat n)"
    using all by (intro no_underscore_ok) blast
  moreover have "filter (\<lambda>c. c \<noteq> CHR ''_'') (str_nat n) = str_nat n"
    using all by (simp add: filter_id_conv)
  ultimately show ?thesis
    using ne all by (simp add: valid_literal_def list_all_iff)
qed

lemma py_int_str_int: "py_int (str_int i) = Inr i"
proof -
  have hd_ok: "\<not> py_space (hd (str_nat n)) \<and> hd (str_nat n) \<noteq> CHR ''-'' \<and> hd (str_nat n) \<noteq> CHR ''+''"
    and last_ok: "\<not> py_space (last (str_nat n))" for n
    using str_nat_nonempty [of n] str_nat_digits [of _ n] str_nat_chars [of _ n]
    by (metis hd_in_set, metis last_in_set)
  show ?thesis
  proof (cases "i < 0")
    case True
    let ?b = "str_nat (nat (- i))"
    have s: "strip (CHR ''-'' # ?b) = CHR ''-'' # ?b"
      using last_ok [of "nat (- i)"] str_nat_nonempty [of "nat (- i)"]
      by (intro strip_tight) (simp_all add: py_space_def)
    show ?thesis
      using True py_int_str_nat [of "nat (- i)"] digits_val_str_nat [of "nat (- i)"]
      by (simp add: py_int_def str_int_def s)
  next
    case False
    let ?b = "str_nat (nat i)"
    have s: "strip ?b = ?b"
      using hd_ok [of "nat i"] last_ok [of "nat i"] str_nat_nonempty [of "nat i"]
      by (intro strip_tight) simp_all
    obtain c rest where cr: "?b = c # rest" using str_nat_nonempty [of "nat i"] by (cases ?b) auto
    then have c: "c \<noteq> CHR ''-''" "c \<noteq> CHR ''+''" using hd_ok [of "nat i"] by simp_all
    show ?thesis
      using False py_int_str_nat [of "nat i"] digits_val_str_nat [of "nat i"] c
      by (simp add: py_int_def str_int_def s) (simp add: cr)
  qed
qed

text \<open>
  C9, as the code has it. The seed source is cut at spaces, tabs and newlines, every
  token is coerced with \<^verbatim>\<open>int\<close>, and the result is without repetition; the
  configurations are the rows after the header, every field stripped and coerced with
  \<^verbatim>\<open>int\<close>. Loading fails exactly when some token or some field is not an integer
  literal, with the \<^verbatim>\<open>ValueError\<close> of that coercion; the decimal string of any integer
  is such a literal and is coerced back to that integer. An empty seed source is no
  error: it loads as the empty Seed Universe.
\<close>

theorem loading_contract:
  "concat (seed_tokens txt) = filter (\<lambda>c. c \<noteq> CHR '' '' \<and> c \<noteq> CHR 0x09 \<and> c \<noteq> CHR 0x0A) txt \<and>
   list_all (\<lambda>t. t \<noteq> [] \<and> list_all (\<lambda>c. c \<noteq> CHR '' '' \<and> c \<noteq> CHR 0x09 \<and> c \<noteq> CHR 0x0A) t) (seed_tokens txt) \<and>
   (case load_seeds txt of
      Inr seeds \<Rightarrow> distinct seeds \<and> (\<exists>is. map py_int (seed_tokens txt) = map Inr is \<and> set seeds = set is)
    | Inl e \<Rightarrow> \<exists>t \<in> set (seed_tokens txt). py_int t = Inl e) \<and>
   (case load_configs rows of
      Inr cfgs \<Rightarrow> map (map (\<lambda>f. py_int (strip f))) (drop 1 rows) = map (map Inr) cfgs
    | Inl e \<Rightarrow> \<exists>row \<in> set (drop 1 rows). \<exists>f \<in> set row. py_int (strip f) = Inl e) \<and>
   (case py_int s of Inr i \<Rightarrow> True | Inl e \<Rightarrow> e = ValueError ''invalid literal for int() with base 10'') \<and>
   py_int (str_int n) = Inr n \<and>
   load_seeds [] = Inr []"
proof -
  have seeds: "case load_seeds txt of
      Inr seeds \<Rightarrow> distinct seeds \<and> (\<exists>is. map py_int (seed_tokens txt) = map Inr is \<and> set seeds = set is)
    | Inl e \<Rightarrow> \<exists>t \<in> set (seed_tokens txt). py_int t = Inl e"
  proof (cases "map_int (seed_tokens txt)")
    case (Inl e)
    then show ?thesis using map_int_Inl [of "seed_tokens txt" e] by (simp add: load_seeds_def)
  next
    case (Inr "is")
    then show ?thesis using map_int_Inr [of "seed_tokens txt" "is"] by (auto simp: load_seeds_def)
  qed
  have configs: "case load_configs rows of
      Inr cfgs \<Rightarrow> map (map (\<lambda>f. py_int (strip f))) (drop 1 rows) = map (map Inr) cfgs
    | Inl e \<Rightarrow> \<exists>row \<in> set (drop 1 rows). \<exists>f \<in> set row. py_int (strip f) = Inl e"
  proof (cases "load_rows (drop 1 rows)")
    case (Inl e)
    then show ?thesis using load_rows_Inl [of "drop 1 rows" e] by (simp add: load_configs_def)
  next
    case (Inr cfgs)
    then show ?thesis using load_rows_Inr [of "drop 1 rows" cfgs] by (simp add: load_configs_def)
  qed
  have err: "case py_int s of Inr i \<Rightarrow> True | Inl e \<Rightarrow> e = ValueError ''invalid literal for int() with base 10''"
    by (simp add: py_int_def Let_def split: prod.splits)
  have empty: "load_seeds [] = Inr []"
    by (simp add: load_seeds_def seed_tokens_def)
  show ?thesis
    using seed_tokens_concat [of "txt"] seed_tokens_pieces [of "txt"] seeds configs err
      py_int_str_int [of n] empty
    by (intro conjI)
qed

text \<open>
  The claim as the specification words it fails: the empty seed source loads, and a
  seed source of white space only loads as well.
\<close>

theorem loading_contract_counterexample:
  "load_seeds [] = Inr [] \<and> load_seeds [CHR '' '', CHR 0x0A] = Inr []"
  by (simp add: load_seeds_def seed_tokens_def)

section \<open>Runs of the coordinator\<close>

lemma store_pair_hashes:
  "ikey \<noteq> ekey \<Longrightarrow>
   hashes (store_pair ikey ekey ls p w) ikey = AList.update (str_int (snd p)) (payload_at ls (2 * fst p)) (hashes w ikey) \<and>
   (\<forall>k. k \<noteq> ikey \<and> k \<noteq> ekey \<longrightarrow> hashes (store_pair ikey ekey ls p w) k = hashes w k)"
  by (simp add: store_pair_def hset_def)

lemma fold_store_pair_keys:
  "ikey \<noteq> ekey \<Longrightarrow>
   fst ` set (hashes (fold (store_pair ikey ekey ls) ps w) ikey) = fst ` set (hashes w ikey) \<union> str_int ` snd ` set ps \<and>
   (distinct (map fst (hashes w ikey)) \<longrightarrow> distinct (map fst (hashes (fold (store_pair ikey ekey ls) ps w) ikey))) \<and>
   (\<forall>k. k \<noteq> ikey \<and> k \<noteq> ekey \<longrightarrow> hashes (fold (store_pair ikey ekey ls) ps w) k = hashes w k)"
proof (induction ps arbitrary: w)
  case Nil
  then show ?case by simp
next
  case (Cons p ps)
  note sp = store_pair_hashes [OF Cons.prems, of ls p w]
  note IH = Cons.IH [OF Cons.prems, of "store_pair ikey ekey ls p w"]
  have k: "fst ` set (hashes (store_pair ikey ekey ls p w) ikey) = insert (str_int (snd p)) (fst ` set (hashes w ikey))"
    using sp by (simp add: dom_update)
  have d: "distinct (map fst (hashes w ikey)) \<Longrightarrow> distinct (map fst (hashes (store_pair ikey ekey ls p w) ikey))"
    using sp by (simp add: distinct_update)
  show ?case
    using IH k d sp by auto
qed

lemma read_pairs_keys:
  assumes "readable ls" and "ikey \<noteq> ekey"
  shows "fst (read_pairs ikey ekey seeds ls w) = Inr (drop (2 * length seeds) ls) \<and>
    fst ` set (hashes (snd (read_pairs ikey ekey seeds ls w)) ikey) = fst ` set (hashes w ikey) \<union> str_int ` set seeds \<and>
    (distinct (map fst (hashes w ikey)) \<longrightarrow> distinct (map fst (hashes (snd (read_pairs ikey ekey seeds ls w)) ikey))) \<and>
    (\<forall>k. k \<noteq> ikey \<and> k \<noteq> ekey \<longrightarrow> hashes (snd (read_pairs ikey ekey seeds ls w)) k = hashes w k)"
proof -
  have rp: "read_pairs ikey ekey seeds ls w =
      (Inr (drop (2 * length seeds) ls), fold (store_pair ikey ekey ls) (enumerate 0 seeds) w)"
    using read_pairs_shift [OF assms(1), of ikey ekey seeds 0 w] by simp
  have "snd ` set (enumerate 0 seeds) = set seeds"
    by (metis map_snd_enumerate set_map)
  then show ?thesis
    unfolding rp using fold_store_pair_keys [OF assms(2), of ls "enumerate 0 seeds" w] by simp
qed

lemma connect_quiet: "faults w = [] \<Longrightarrow> connect w = (None, w)"
  by (simp add: connect_def)

lemma generate_idle:
  "faults w = [] \<Longrightarrow> target_instances \<le> int (hlen w (instance_key c)) \<Longrightarrow>
   generate_instances gen random_seeds k_range m_range c target_instances w = (Inr (hlen w (instance_key c), 0), w)"
  by (rule generate_complete [OF connect_quiet])

lemma unpack_six: "length t = 6 \<Longrightarrow> \<exists>c. unpack_config t = Inr c"
  by (cases t rule: unpack_config.cases) simp_all

lemma distinct_keys_length: "distinct (map fst h) \<Longrightarrow> length h = card (fst ` set h)"
  using distinct_card [of "map fst h"] by simp

lemma filled_hlen:
  "filled n random_seeds w ikey \<Longrightarrow> distinct random_seeds \<Longrightarrow> n \<le> length random_seeds \<Longrightarrow> hlen w ikey = n"
proof -
  assume f: "filled n random_seeds w ikey" and d: "distinct random_seeds" and n: "n \<le> length random_seeds"
  have "hlen w ikey = card (fst ` set (hashes w ikey))"
    using f by (simp add: hlen_def filled_def distinct_keys_length)
  also have "\<dots> = card (str_int ` set (take n random_seeds))"
    using f by (simp add: filled_def)
  also have "\<dots> = card (set (take n random_seeds))"
    by (rule card_image) (auto simp: inj_on_def dest: str_int_inj)
  also have "\<dots> = length (take n random_seeds)"
    using d by (simp add: distinct_card)
  also have "\<dots> = n" using n by simp
  finally show ?thesis .
qed

lemma known_only_hlen:
  "known_only random_seeds w ikey \<Longrightarrow> hlen w ikey \<le> length random_seeds"
proof -
  assume k: "known_only random_seeds w ikey"
  have "hlen w ikey = card (fst ` set (hashes w ikey))"
    using k by (simp add: hlen_def known_only_def distinct_keys_length)
  also have "\<dots> \<le> card (str_int ` set random_seeds)"
    using k by (intro card_mono) (simp_all add: known_only_def)
  also have "\<dots> \<le> card (set random_seeds)" by (rule card_image_le) simp
  also have "\<dots> \<le> length random_seeds" by (rule card_length)
  finally show ?thesis .
qed


lemma generate_fills:
  assumes q: "faults w = []" and l: "locks w = (\<lambda>k. None)" and e: "hashes w (instance_key c) = []"
    and pos: "0 < target_instances" and le: "target_instances \<le> int (length random_seeds)"
    and d: "distinct random_seeds" and rd: "\<forall>argv. readable (stdout_lines (gen argv))"
  shows "\<exists>w'. generate_instances gen random_seeds k_range m_range c target_instances w =
            (Inr (nat target_instances, target_instances), w') \<and>
          faults w' = [] \<and> locks w' = (\<lambda>k. None) \<and>
          filled (nat target_instances) random_seeds w' (instance_key c) \<and>
          (\<forall>k. k \<noteq> instance_key c \<and> k \<noteq> evaluation_key c \<longrightarrow> hashes w' k = hashes w k)"
proof -
  let ?T = "nat target_instances"
  let ?ikey = "instance_key c"
  let ?ekey = "evaluation_key c"
  let ?w1 = "snd (claim_block w (lock_key 0 ?ikey))"
  let ?seeds = "take ?T random_seeds"
  let ?argv = "generator_args k_range m_range c ?seeds"
  let ?w3 = "?w1\<lparr>printed := printed ?w1 @ [GotLock ?ikey 0], spawned := spawned ?w1 @ [?argv]\<rparr>"
  have cn: "connect w = (None, w)" using q by (rule connect_quiet)
  have lt: "\<not> target_instances \<le> int (hlen w ?ikey)"
    using e pos by (simp add: hlen_def)
  have "\<not> live w (lock_key 0 ?ikey)" using l by (simp add: live_def)
  then have sc: "scan_blocks ?ikey (block_range 0 ?T) (None, 0) w = ((Some True, 0), ?w1)"
    using pos by (intro scan_first_free) simp_all
  have w1: "hashes ?w1 = hashes w" "faults ?w1 = faults w"
    "locks ?w1 = (locks w)(lock_key 0 ?ikey \<mapsto> (str_nat (time_ns w), Some (clock w + LOCK_TIME * 1000)))"
    using l by (simp_all add: claim_block_eq live_def)
  have tg: "to_generate ?w1 ?ikey random_seeds 0 (hlen w ?ikey) ?T = ?seeds"
    using e w1(1) by (simp add: to_generate_def hexists_def hlen_def)
  have ne: "?seeds \<noteq> []" using pos le by auto
  obtain r w4 where rp: "read_pairs ?ikey ?ekey ?seeds (stdout_lines (gen ?argv)) ?w3 = (r, w4)"
    by fastforce
  have rdl: "readable (stdout_lines (gen ?argv))" using rd by blast
  note keys = read_pairs_keys [OF rdl instance_key_not_evaluation_key, of c c ?seeds ?w3, unfolded rp fst_conv snd_conv]
  note frame = read_pairs_frame [of ?ikey ?ekey ?seeds "stdout_lines (gen ?argv)" ?w3, unfolded rp snd_conv]
  obtain rest where r: "r = Inr rest" using keys by blast
  have f4: "filled ?T random_seeds w4 ?ikey"
    using keys e w1(1) by (simp add: filled_def)
  have nle: "?T \<le> length random_seeds" using le by linarith
  have h4: "hlen w4 ?ikey = ?T"
    using f4 d nle by (rule filled_hlen)
  have len: "int (length ?seeds) = target_instances" using pos le by simp
  let ?w5 = "w4\<lparr>locks := (locks w4)(lock_key 0 ?ikey := None)\<rparr>"
  have g: "generate_instances gen random_seeds k_range m_range c target_instances w =
      (Inr (?T, target_instances), ?w5)"
    using generate_reads [where gen = gen and k_range = k_range and m_range = m_range,
        OF cn lt sc tg ne rp] r h4 len by simp
  have "faults ?w5 = []" using frame w1(2) q by simp
  moreover have "locks ?w5 = (\<lambda>k. None)" using frame w1(3) l by auto
  moreover have "filled ?T random_seeds ?w5 ?ikey" using f4 by (simp add: filled_def)
  moreover have "\<forall>k. k \<noteq> ?ikey \<and> k \<noteq> ?ekey \<longrightarrow> hashes ?w5 k = hashes w k"
    using keys w1(1) by simp
  ultimately show ?thesis using g by blast
qed


lemma filled_printed [simp]: "filled n random_seeds (w\<lparr>printed := p\<rparr>) k = filled n random_seeds w k"
  by (simp add: filled_def)

lemma known_only_printed [simp]: "known_only random_seeds (w\<lparr>printed := p\<rparr>) k = known_only random_seeds w k"
  by (simp add: known_only_def)

lemma generate_step:
  assumes d: "distinct random_seeds" and le: "target_instances \<le> int (length random_seeds)"
    and rd: "\<forall>argv. readable (stdout_lines (gen argv))"
    and q: "faults w = []" and l: "locks w = (\<lambda>k. None)"
    and j: "\<forall>c. hashes w (instance_key c) = [] \<or> filled (nat target_instances) random_seeds w (instance_key c)"
  shows "\<exists>p cur w'. generate_instances gen random_seeds k_range m_range c target_instances w = (Inr (p, cur), w') \<and>
      faults w' = [] \<and> locks w' = (\<lambda>k. None) \<and>
      (\<forall>c'. hashes w' (instance_key c') = [] \<or> filled (nat target_instances) random_seeds w' (instance_key c')) \<and>
      (\<forall>c'. filled (nat target_instances) random_seeds w (instance_key c') \<longrightarrow>
            filled (nat target_instances) random_seeds w' (instance_key c')) \<and>
      filled (nat target_instances) random_seeds w' (instance_key c)"
proof (cases "target_instances \<le> int (hlen w (instance_key c))")
  case True
  have g: "generate_instances gen random_seeds k_range m_range c target_instances w =
      (Inr (hlen w (instance_key c), 0), w)"
    using q True by (rule generate_idle)
  have "filled (nat target_instances) random_seeds w (instance_key c)"
  proof (cases "hashes w (instance_key c) = []")
    case True
    with \<open>target_instances \<le> int (hlen w (instance_key c))\<close> have "nat target_instances = 0"
      by (simp add: hlen_def)
    then show ?thesis using True by (simp add: filled_def)
  next
    case False
    then show ?thesis using j by blast
  qed
  then show ?thesis using g q l j by blast
next
  case False
  have nle: "nat target_instances \<le> length random_seeds" using le by linarith
  have e: "hashes w (instance_key c) = []"
  proof (rule ccontr)
    assume "hashes w (instance_key c) \<noteq> []"
    then have "filled (nat target_instances) random_seeds w (instance_key c)" using j by blast
    then have "hlen w (instance_key c) = nat target_instances" using d nle by (rule filled_hlen)
    then show False using False by (simp split: if_splits)
  qed
  have pos: "0 < target_instances" using False by (simp add: hlen_def e)
  obtain w' where w': "generate_instances gen random_seeds k_range m_range c target_instances w =
            (Inr (nat target_instances, target_instances), w')"
      "faults w' = []" "locks w' = (\<lambda>k. None)"
      "filled (nat target_instances) random_seeds w' (instance_key c)"
      "\<forall>k. k \<noteq> instance_key c \<and> k \<noteq> evaluation_key c \<longrightarrow> hashes w' k = hashes w k"
    using generate_fills [OF q l e pos le d rd, of k_range m_range] by blast
  have other: "hashes w' (instance_key c') = hashes w (instance_key c')" if "instance_key c' \<noteq> instance_key c" for c'
    using w'(5) that instance_key_not_evaluation_key by blast
  have keep: "hashes w' (instance_key c') = [] \<or> filled (nat target_instances) random_seeds w' (instance_key c')" for c'
  proof (cases "instance_key c' = instance_key c")
    case True
    then show ?thesis using w'(4) by simp
  next
    case False
    then show ?thesis using other [OF False] j by (simp add: filled_def)
  qed
  have pres: "filled (nat target_instances) random_seeds w' (instance_key c')"
    if "filled (nat target_instances) random_seeds w (instance_key c')" for c'
  proof (cases "instance_key c' = instance_key c")
    case True
    then show ?thesis using w'(4) by simp
  next
    case False
    then show ?thesis using other [OF False] that by (simp add: filled_def)
  qed
  show ?thesis
    using w'(1,2,3,4) keep pres by blast
qed

lemma sweep_fills:
  assumes d: "distinct random_seeds" and le: "target_instances \<le> int (length random_seeds)"
    and rd: "\<forall>argv. readable (stdout_lines (gen argv))"
  shows "faults w = [] \<Longrightarrow> locks w = (\<lambda>k. None) \<Longrightarrow>
    \<forall>c. hashes w (instance_key c) = [] \<or> filled (nat target_instances) random_seeds w (instance_key c) \<Longrightarrow>
    \<forall>t \<in> set cfgs. length t = 6 \<Longrightarrow>
    \<exists>b w'. sweep gen random_seeds k_range m_range target_instances cfgs run_again w = (Inr b, w') \<and>
      faults w' = [] \<and> locks w' = (\<lambda>k. None) \<and>
      (\<forall>c. hashes w' (instance_key c) = [] \<or> filled (nat target_instances) random_seeds w' (instance_key c)) \<and>
      (\<forall>c. filled (nat target_instances) random_seeds w (instance_key c) \<longrightarrow>
           filled (nat target_instances) random_seeds w' (instance_key c)) \<and>
      (\<forall>t \<in> set cfgs. \<forall>c. unpack_config t = Inr c \<longrightarrow>
           filled (nat target_instances) random_seeds w' (instance_key c))"
proof (induction cfgs arbitrary: run_again w)
  case Nil
  then show ?case by simp
next
  case (Cons t rest)
  obtain c where c: "unpack_config t = Inr c"
    using Cons.prems(4) unpack_six [of t] by auto
  obtain p cur w1 where g: "generate_instances gen random_seeds k_range m_range c target_instances w = (Inr (p, cur), w1)"
    and q1: "faults w1 = []" and l1: "locks w1 = (\<lambda>k. None)"
    and j1: "\<forall>c'. hashes w1 (instance_key c') = [] \<or> filled (nat target_instances) random_seeds w1 (instance_key c')"
    and p1: "\<forall>c'. filled (nat target_instances) random_seeds w (instance_key c') \<longrightarrow>
            filled (nat target_instances) random_seeds w1 (instance_key c')"
    and f1: "filled (nat target_instances) random_seeds w1 (instance_key c)"
    using generate_step [OF d le rd Cons.prems(1,2,3), of k_range m_range c] by blast
  let ?w1 = "w1\<lparr>printed := printed w1 @ [Progress t p cur]\<rparr>"
  have sw: "sweep gen random_seeds k_range m_range target_instances (t # rest) run_again w =
      sweep gen random_seeds k_range m_range target_instances rest (run_again \<or> cur \<noteq> 0) ?w1"
    using c g by simp
  have a1: "faults ?w1 = []" using q1 by simp
  have a2: "locks ?w1 = (\<lambda>k. None)" using l1 by simp
  have a3: "\<forall>c. hashes ?w1 (instance_key c) = [] \<or> filled (nat target_instances) random_seeds ?w1 (instance_key c)"
    using j1 by simp
  have a4: "\<forall>t \<in> set rest. length t = 6" using Cons.prems(4) by simp
  obtain b w' where r: "sweep gen random_seeds k_range m_range target_instances rest (run_again \<or> cur \<noteq> 0) ?w1 = (Inr b, w')"
    and q': "faults w' = []" and l': "locks w' = (\<lambda>k. None)"
    and j': "\<forall>c. hashes w' (instance_key c) = [] \<or> filled (nat target_instances) random_seeds w' (instance_key c)"
    and p': "\<forall>c. filled (nat target_instances) random_seeds ?w1 (instance_key c) \<longrightarrow>
           filled (nat target_instances) random_seeds w' (instance_key c)"
    and f': "\<forall>t \<in> set rest. \<forall>c. unpack_config t = Inr c \<longrightarrow>
           filled (nat target_instances) random_seeds w' (instance_key c)"
    using Cons.IH [OF a1 a2 a3 a4, of "run_again \<or> cur \<noteq> 0"] by blast
  have pres: "\<forall>c. filled (nat target_instances) random_seeds w (instance_key c) \<longrightarrow>
           filled (nat target_instances) random_seeds w' (instance_key c)"
    using p1 p' by simp
  have here: "filled (nat target_instances) random_seeds w' (instance_key c)"
    using f1 p' by simp
  have all: "\<forall>t' \<in> set (t # rest). \<forall>c'. unpack_config t' = Inr c' \<longrightarrow>
           filled (nat target_instances) random_seeds w' (instance_key c')"
    using f' here c by auto
  show ?case
    unfolding sw r using q' l' j' pres all by blast
qed


lemma sweep_idle:
  "faults w = [] \<Longrightarrow>
   \<forall>t \<in> set cfgs. \<exists>c. unpack_config t = Inr c \<and> target_instances \<le> int (hlen w (instance_key c)) \<Longrightarrow>
   \<exists>w'. sweep gen random_seeds k_range m_range target_instances cfgs run_again w = (Inr run_again, w') \<and>
     hashes w' = hashes w \<and> locks w' = locks w \<and> faults w' = faults w \<and> spawned w' = spawned w \<and>
     clock w' = clock w"
proof (induction cfgs arbitrary: w)
  case Nil
  then show ?case by simp
next
  case (Cons t rest)
  obtain c where c: "unpack_config t = Inr c" and h: "target_instances \<le> int (hlen w (instance_key c))"
    using Cons.prems(2) by auto
  have g: "generate_instances gen random_seeds k_range m_range c target_instances w =
      (Inr (hlen w (instance_key c), 0), w)"
    using Cons.prems(1) h by (rule generate_idle)
  let ?w1 = "w\<lparr>printed := printed w @ [Progress t (hlen w (instance_key c)) 0]\<rparr>"
  have sw: "sweep gen random_seeds k_range m_range target_instances (t # rest) run_again w =
      sweep gen random_seeds k_range m_range target_instances rest run_again ?w1"
    using c g by simp
  have a1: "faults ?w1 = []" using Cons.prems(1) by simp
  have a2: "\<forall>t \<in> set rest. \<exists>c. unpack_config t = Inr c \<and> target_instances \<le> int (hlen ?w1 (instance_key c))"
    using Cons.prems(2) by (simp add: hlen_def)
  show ?case
    unfolding sw using Cons.IH [OF a1 a2] by simp
qed

lemma run_idle:
  assumes "faults w = []"
    and "\<forall>t \<in> set cfgs. \<exists>c. unpack_config t = Inr c \<and> target_instances \<le> int (hlen w (instance_key c))"
  shows "\<exists>w'. convergence_loop gen random_seeds k_range m_range target_instances cfgs w = Some (None, w') \<and>
     hashes w' = hashes w \<and> locks w' = locks w \<and> faults w' = faults w \<and> spawned w' = spawned w \<and>
     clock w' = clock w"
proof -
  obtain w' where s: "sweep gen random_seeds k_range m_range target_instances cfgs False w = (Inr False, w')"
    and f: "hashes w' = hashes w" "locks w' = locks w" "faults w' = faults w" "spawned w' = spawned w"
      "clock w' = clock w"
    using sweep_idle [OF assms, of gen random_seeds k_range m_range False] by blast
  have "convergence_loop gen random_seeds k_range m_range target_instances cfgs w = Some (None, w')"
    by (subst convergence_loop.simps) (simp add: s)
  then show ?thesis using f by blast
qed

lemma run_converges:
  assumes d: "distinct random_seeds" and le: "target_instances \<le> int (length random_seeds)"
    and rd: "\<forall>argv. readable (stdout_lines (gen argv))"
    and q: "faults w = []" and l: "locks w = (\<lambda>k. None)"
    and j: "\<forall>c. hashes w (instance_key c) = [] \<or> filled (nat target_instances) random_seeds w (instance_key c)"
    and six: "\<forall>t \<in> set cfgs. length t = 6"
  shows "\<exists>w'. convergence_loop gen random_seeds k_range m_range target_instances cfgs w = Some (None, w') \<and>
     faults w' = [] \<and>
     (\<forall>t \<in> set cfgs. \<forall>c. unpack_config t = Inr c \<longrightarrow>
        filled (nat target_instances) random_seeds w' (instance_key c))"
proof -
  obtain b w1 where s: "sweep gen random_seeds k_range m_range target_instances cfgs False w = (Inr b, w1)"
    and q1: "faults w1 = []"
    and f1: "\<forall>t \<in> set cfgs. \<forall>c. unpack_config t = Inr c \<longrightarrow>
        filled (nat target_instances) random_seeds w1 (instance_key c)"
    using sweep_fills [OF d le rd q l j six, of k_range m_range False] by blast
  show ?thesis
  proof (cases b)
    case False
    have "convergence_loop gen random_seeds k_range m_range target_instances cfgs w = Some (None, w1)"
      by (subst convergence_loop.simps) (simp add: s False)
    then show ?thesis using q1 f1 by blast
  next
    case True
    have step: "convergence_loop gen random_seeds k_range m_range target_instances cfgs w =
        convergence_loop gen random_seeds k_range m_range target_instances cfgs w1"
      by (subst convergence_loop.simps) (simp add: s True)
    have nle: "nat target_instances \<le> length random_seeds" using le by linarith
    have allc: "\<forall>t \<in> set cfgs. \<exists>c. unpack_config t = Inr c \<and> target_instances \<le> int (hlen w1 (instance_key c))"
    proof
      fix t assume t: "t \<in> set cfgs"
      then obtain c where c: "unpack_config t = Inr c" using six unpack_six by blast
      then have "filled (nat target_instances) random_seeds w1 (instance_key c)" using f1 t by blast
      then have "hlen w1 (instance_key c) = nat target_instances" using d nle by (rule filled_hlen)
      then show "\<exists>c. unpack_config t = Inr c \<and> target_instances \<le> int (hlen w1 (instance_key c))"
        using c by auto
    qed
    obtain w2 where r: "convergence_loop gen random_seeds k_range m_range target_instances cfgs w1 = Some (None, w2)"
      and h2: "hashes w2 = hashes w1" and q2: "faults w2 = faults w1"
      using run_idle [OF q1 allc, of gen random_seeds k_range m_range] by blast
    have "\<forall>t \<in> set cfgs. \<forall>c. unpack_config t = Inr c \<longrightarrow>
        filled (nat target_instances) random_seeds w2 (instance_key c)"
      using f1 h2 by (simp add: filled_def)
    then show ?thesis using step r q1 q2 by auto
  qed
qed

lemma pair_generator_readable: "readable (stdout_lines (pair_generator argv))"
proof -
  have "readable (concat (map (\<lambda>s. [''instance'' @ [CHR 0x0A], ''evaluation'' @ [CHR 0x0A]]) xs))" for xs :: "string list"
    by (induction xs) (simp_all add: readable_def READ_LIMIT_def)
  then show ?thesis by (simp add: pair_generator_def)
qed

text \<open>
  C2, as the code has it. With a Seed Universe of distinct seeds at least as long as
  the target, a catalog of six-field configurations, a generator whose lines can be
  read, no connection fault, and a store that holds no record and no lock: the
  coordinator converges; after it every configuration of the catalog has exactly
  \<open>min target |Seed Universe|\<close> Instance Records, which is the target; and a second run
  from the store the first one left converges as well and changes no hash and no lock
  and starts no generator.
\<close>

theorem idempotency:
  assumes "distinct random_seeds" and "target_instances \<le> int (length random_seeds)"
    and "\<forall>argv. readable (stdout_lines (gen argv))"
    and "\<forall>t \<in> set cfgs. length t = 6"
    and "hashes w = (\<lambda>k. [])" and "locks w = (\<lambda>k. None)" and "faults w = []"
  shows "\<exists>w1 w2.
    convergence_loop gen random_seeds k_range m_range target_instances cfgs w = Some (None, w1) \<and>
    (\<forall>t \<in> set cfgs. \<forall>c. unpack_config t = Inr c \<longrightarrow>
       hlen w1 (instance_key c) = nat (min target_instances (int (length random_seeds)))) \<and>
    convergence_loop gen random_seeds k_range m_range target_instances cfgs w1 = Some (None, w2) \<and>
    hashes w2 = hashes w1 \<and> locks w2 = locks w1 \<and> spawned w2 = spawned w1"
proof -
  have j: "\<forall>c. hashes w (instance_key c) = [] \<or> filled (nat target_instances) random_seeds w (instance_key c)"
    using assms(5) by simp
  obtain w1 where r1: "convergence_loop gen random_seeds k_range m_range target_instances cfgs w = Some (None, w1)"
    and q1: "faults w1 = []"
    and f1: "\<forall>t \<in> set cfgs. \<forall>c. unpack_config t = Inr c \<longrightarrow>
        filled (nat target_instances) random_seeds w1 (instance_key c)"
    using run_converges [OF assms(1,2,3,7,6) j assms(4), of k_range m_range] by blast
  have nle: "nat target_instances \<le> length random_seeds" using assms(2) by linarith
  have count: "hlen w1 (instance_key c) = nat target_instances"
    if "t \<in> set cfgs" and "unpack_config t = Inr c" for t c
    using f1 that assms(1) nle filled_hlen by blast
  have m: "nat (min target_instances (int (length random_seeds))) = nat target_instances"
    using assms(2) by (simp add: min_def)
  have allc: "\<forall>t \<in> set cfgs. \<exists>c. unpack_config t = Inr c \<and> target_instances \<le> int (hlen w1 (instance_key c))"
  proof
    fix t assume t: "t \<in> set cfgs"
    then obtain c where c: "unpack_config t = Inr c" using assms(4) unpack_six by blast
    then have "hlen w1 (instance_key c) = nat target_instances" using count t by blast
    then show "\<exists>c. unpack_config t = Inr c \<and> target_instances \<le> int (hlen w1 (instance_key c))"
      using c by auto
  qed
  obtain w2 where r2: "convergence_loop gen random_seeds k_range m_range target_instances cfgs w1 = Some (None, w2)"
    and same: "hashes w2 = hashes w1" "locks w2 = locks w1" "spawned w2 = spawned w1"
    using run_idle [OF q1 allc, of gen random_seeds k_range m_range] by blast
  show ?thesis
    using r1 r2 same count m by auto
qed


theorem idempotency_witness:
  "\<exists>w1 w2.
     convergence_loop pair_generator [5, 7, 9] 1 1 2 [[1, 2, 3, 4, 5, 6]] empty_world = Some (None, w1) \<and>
     hlen w1 (instance_key sample_config) = 2 \<and>
     convergence_loop pair_generator [5, 7, 9] 1 1 2 [[1, 2, 3, 4, 5, 6]] w1 = Some (None, w2) \<and>
     hashes w2 = hashes w1 \<and> locks w2 = locks w1 \<and> spawned w2 = spawned w1"
proof -
  have h1: "distinct [5, 7, 9 :: int]" by simp
  have h2: "2 \<le> int (length [5, 7, 9 :: int])" by simp
  have h3: "\<forall>argv. readable (stdout_lines (pair_generator argv))"
    using pair_generator_readable by blast
  have h4: "\<forall>t \<in> set [[1, 2, 3, 4, 5, 6 :: int]]. length t = 6" by simp
  have h5: "hashes empty_world = (\<lambda>k. [])" "locks empty_world = (\<lambda>k. None)" "faults empty_world = []"
    by (simp_all add: empty_world_def)
  obtain w1 w2 where
    a: "convergence_loop pair_generator [5, 7, 9] 1 1 2 [[1, 2, 3, 4, 5, 6]] empty_world = Some (None, w1)"
    and b: "\<forall>t \<in> set [[1, 2, 3, 4, 5, 6]]. \<forall>c. unpack_config t = Inr c \<longrightarrow>
       hlen w1 (instance_key c) = nat (min 2 (int (length [5, 7, 9 :: int])))"
    and c: "convergence_loop pair_generator [5, 7, 9] 1 1 2 [[1, 2, 3, 4, 5, 6]] w1 = Some (None, w2)"
      "hashes w2 = hashes w1" "locks w2 = locks w1" "spawned w2 = spawned w1"
    using idempotency [OF h1 h2 h3 h4 h5, of 1 1] by blast
  have "hlen w1 (instance_key sample_config) = 2"
    using b unpack_sample by simp
  then show ?thesis using a c by blast
qed

lemma to_generate_subset: "set (to_generate w ikey random_seeds block existing n) \<subseteq> set random_seeds"
  unfolding to_generate_def by (meson filter_is_subset set_drop_subset set_take_subset subset_trans)

lemma generate_short:
  assumes rd: "\<forall>argv. readable (stdout_lines (gen argv))" and q: "faults w = []"
    and kn: "\<forall>c'. known_only random_seeds w (instance_key c')"
    and short: "int (length random_seeds) < target_instances"
  shows "\<exists>p cur w'. generate_instances gen random_seeds k_range m_range c target_instances w = (Inr (p, cur), w') \<and>
      cur \<noteq> 0 \<and> faults w' = [] \<and> (\<forall>c'. known_only random_seeds w' (instance_key c'))"
proof (cases rule: generate_cases [of w gen random_seeds k_range m_range c target_instances])
  case (fault e w0)
  then show ?thesis using connect_quiet [OF q] by simp
next
  case (complete w0)
  then have "w0 = w" using connect_quiet [OF q] by simp
  then show ?thesis using complete(2) known_only_hlen [of random_seeds w "instance_key c"] kn short
    by auto
next
  case (contended w0 block w1)
  then have w0: "w0 = w" using connect_quiet [OF q] by simp
  have "hashes w1 = hashes w" "faults w1 = faults w"
    using scan_blocks_frame [of "instance_key c" "block_range 0 (nat target_instances)" "(None, 0)" w0]
      contended(3) w0 by simp_all
  then show ?thesis using contended(4) kn q by (auto simp: known_only_def)
next
  case (exhausted w0 block w1)
  then have w0: "w0 = w" using connect_quiet [OF q] by simp
  have "hashes w1 = hashes w" "faults w1 = faults w"
    using scan_blocks_frame [of "instance_key c" "block_range 0 (nat target_instances)" "(None, 0)" w0]
      exhausted(3) w0 by simp_all
  then show ?thesis using exhausted(5) kn q by (auto simp: known_only_def)
next
  case (reads w0 block w1 seeds r w4)
  then have w0: "w0 = w" using connect_quiet [OF q] by simp
  have w1: "hashes w1 = hashes w" "faults w1 = faults w"
    using scan_blocks_frame [of "instance_key c" "block_range 0 (nat target_instances)" "(None, 0)" w0]
      reads(3) w0 by simp_all
  let ?ikey = "instance_key c"
  let ?argv = "generator_args k_range m_range c seeds"
  let ?w3 = "w1\<lparr>printed := printed w1 @ [GotLock ?ikey block], spawned := spawned w1 @ [?argv]\<rparr>"
  have rdl: "readable (stdout_lines (gen ?argv))" using rd by blast
  note keys = read_pairs_keys [OF rdl instance_key_not_evaluation_key, of c c seeds ?w3, unfolded reads(6) fst_conv snd_conv]
  note frame = read_pairs_frame [of ?ikey "evaluation_key c" seeds "stdout_lines (gen ?argv)" ?w3,
      unfolded reads(6) snd_conv]
  obtain rest where r: "r = Inr rest" using keys by blast
  let ?w5 = "w4\<lparr>locks := (locks w4)(lock_key block ?ikey := None)\<rparr>"
  have g: "generate_instances gen random_seeds k_range m_range c target_instances w =
      (Inr (hlen w4 ?ikey, int (length seeds)), ?w5)"
    using reads(7) r by simp
  have sub: "str_int ` set seeds \<subseteq> str_int ` set random_seeds"
    using to_generate_subset reads(4) by blast
  have other: "hashes w4 (instance_key c') = hashes w (instance_key c')" if "instance_key c' \<noteq> ?ikey" for c'
    using keys that instance_key_not_evaluation_key w1(1) by simp
  have "known_only random_seeds ?w5 (instance_key c')" for c'
  proof (cases "instance_key c' = ?ikey")
    case True
    have "known_only random_seeds w ?ikey" using kn by blast
    then show ?thesis using keys sub w1(1) True by (simp add: known_only_def)
  next
    case False
    have "known_only random_seeds w (instance_key c')" using kn by blast
    then show ?thesis using other [OF False] by (simp add: known_only_def)
  qed
  moreover have "faults ?w5 = []" using frame w1(2) q by simp
  moreover have "int (length seeds) \<noteq> 0" using reads(5) by simp
  ultimately show ?thesis using g by blast
qed

lemma sweep_short:
  assumes rd: "\<forall>argv. readable (stdout_lines (gen argv))"
    and short: "int (length random_seeds) < target_instances"
  shows "faults w = [] \<Longrightarrow> \<forall>c'. known_only random_seeds w (instance_key c') \<Longrightarrow>
    \<forall>t \<in> set cfgs. length t = 6 \<Longrightarrow>
    \<exists>w'. sweep gen random_seeds k_range m_range target_instances cfgs run_again w =
            (Inr (run_again \<or> cfgs \<noteq> []), w') \<and>
      faults w' = [] \<and> (\<forall>c'. known_only random_seeds w' (instance_key c'))"
proof (induction cfgs arbitrary: run_again w)
  case Nil
  then show ?case by simp
next
  case (Cons t rest)
  obtain c where c: "unpack_config t = Inr c"
    using Cons.prems(3) unpack_six [of t] by auto
  obtain p cur w1 where g: "generate_instances gen random_seeds k_range m_range c target_instances w = (Inr (p, cur), w1)"
    and nz: "cur \<noteq> 0" and q1: "faults w1 = []"
    and k1: "\<forall>c'. known_only random_seeds w1 (instance_key c')"
    using generate_short [OF rd Cons.prems(1,2) short, of k_range m_range c] by blast
  let ?w1 = "w1\<lparr>printed := printed w1 @ [Progress t p cur]\<rparr>"
  have sw: "sweep gen random_seeds k_range m_range target_instances (t # rest) run_again w =
      sweep gen random_seeds k_range m_range target_instances rest True ?w1"
    using c g nz by simp
  have a1: "faults ?w1 = []" using q1 by simp
  have a2: "\<forall>c'. known_only random_seeds ?w1 (instance_key c')" using k1 by simp
  have a3: "\<forall>t \<in> set rest. length t = 6" using Cons.prems(3) by simp
  show ?case
    unfolding sw using Cons.IH [OF a1 a2 a3, of True] by simp
qed

lemma never_converges:
  assumes rd: "\<forall>argv. readable (stdout_lines (gen argv))"
    and short: "int (length random_seeds) < target_instances"
    and ne: "cfgs \<noteq> []" and six: "\<forall>t \<in> set cfgs. length t = 6"
    and q: "faults w = []" and kn: "\<forall>c'. known_only random_seeds w (instance_key c')"
  shows "convergence_loop gen random_seeds k_range m_range target_instances cfgs w = None"
proof (rule ccontr)
  assume "convergence_loop gen random_seeds k_range m_range target_instances cfgs w \<noteq> None"
  then obtain y where y: "convergence_loop gen random_seeds k_range m_range target_instances cfgs w = Some y"
    by blast
  let ?P = "\<lambda>(g :: generator) (s :: int list) (k :: int) (m :: int) (t :: int) (cs :: int list list) (v :: world)
      (y :: exn option \<times> world).
      \<not> ((\<forall>argv. readable (stdout_lines (g argv))) \<and> int (length s) < t \<and> cs \<noteq> [] \<and>
         (\<forall>t \<in> set cs. length t = 6) \<and> faults v = [] \<and> (\<forall>c'. known_only s v (instance_key c')))"
  have "?P gen random_seeds k_range m_range target_instances cfgs w y"
  proof (rule convergence_loop.raw_induct [where P = ?P, OF _ y])
    fix f g s k m t cs v z
    assume IH: "\<And>s k m t cs v b y. f s k m t cs v b = Some y \<Longrightarrow> ?P s k m t cs v b y"
    assume body: "(case sweep g s k m t cs False v of
        (Inl e, w1) \<Rightarrow> Some (Some e, w1)
      | (Inr run_again, w1) \<Rightarrow> if run_again then f g s k m t cs w1 else Some (None, w1)) = Some z"
    show "?P g s k m t cs v z"
    proof
      assume h: "(\<forall>argv. readable (stdout_lines (g argv))) \<and> int (length s) < t \<and> cs \<noteq> [] \<and>
         (\<forall>t \<in> set cs. length t = 6) \<and> faults v = [] \<and> (\<forall>c'. known_only s v (instance_key c'))"
      then obtain w' where sw: "sweep g s k m t cs False v = (Inr True, w')"
        and q': "faults w' = []" and k': "\<forall>c'. known_only s w' (instance_key c')"
        using sweep_short [of g s t v cs k m False] by auto
      have "f g s k m t cs w' = Some z" using body sw by simp
      from IH [OF this] show False using h q' k' by blast
    qed
  qed
  then show False using assms by blast
qed

text \<open>
  The claim as the specification words it fails when the Seed Universe is shorter than
  the target: with one seed and target 2 the coordinator writes the one record there
  is and then never converges, every later pass reporting \<open>-2\<close> or \<open>-1\<close>.
\<close>

theorem idempotency_counterexample:
  "convergence_loop pair_generator [5] 1 1 2 [[1, 2, 3, 4, 5, 6]] empty_world = None"
proof (rule never_converges)
  show "\<forall>argv. readable (stdout_lines (pair_generator argv))"
    using pair_generator_readable by blast
  show "int (length [5 :: int]) < 2" by simp
  show "[[1, 2, 3, 4, 5, 6 :: int]] \<noteq> []" by simp
  show "\<forall>t \<in> set [[1, 2, 3, 4, 5, 6 :: int]]. length t = 6" by simp
  show "faults empty_world = []" by (simp add: empty_world_def)
  show "\<forall>c'. known_only [5] empty_world (instance_key c')"
    by (simp add: known_only_def empty_world_def)
qed

section \<open>The block a call claims\<close>

lemma generate_claims:
  assumes cf: "fst (connect w) = None" and lt: "int (hlen w (instance_key c)) < target_instances"
  shows "printed (snd (generate_instances gen random_seeds k_range m_range c target_instances w)) =
     printed w @
       (case find (\<lambda>(j, block). \<not> live (w\<lparr>clock := clock w + 50 * j\<rparr>) (lock_key block (instance_key c)))
               (enumerate 0 (block_range 0 (nat target_instances))) of
          Some (j, block) \<Rightarrow> [GotLock (instance_key c) block]
        | None \<Rightarrow> [])"
proof -
  let ?ikey = "instance_key c"
  let ?offs = "block_range 0 (nat target_instances)"
  let ?find = "find (\<lambda>(j, block). \<not> live (w\<lparr>clock := clock w + 50 * j\<rparr>) (lock_key block ?ikey)) (enumerate 0 ?offs)"
  have fr: "locks (snd (connect w)) = locks w" "clock (snd (connect w)) = clock w"
    "printed (snd (connect w)) = printed w" "hashes (snd (connect w)) = hashes w"
    using connect_frame [of w] by simp_all
  have same: "(\<lambda>(j, block). \<not> live ((snd (connect w))\<lparr>clock := clock (snd (connect w)) + 50 * j\<rparr>) (lock_key block ?ikey)) =
      (\<lambda>(j, block). \<not> live (w\<lparr>clock := clock w + 50 * j\<rparr>) (lock_key block ?ikey))"
  proof -
    have "live ((snd (connect w))\<lparr>clock := t\<rparr>) k = live (w\<lparr>clock := t\<rparr>) k" for t k
      by (rule live_cong) (simp_all add: fr)
    then show ?thesis by (simp add: fr(2))
  qed
  note so = scan_order [where target = "nat target_instances" and w = "snd (connect w)" and ikey = ?ikey,
      unfolded same]
  have pos: "nat target_instances \<noteq> 0" using lt by simp
  have found: "?find = Some (the ?find) \<and> snd (the ?find) = block"
    if "fst (scan_blocks ?ikey ?offs (None, 0) (snd (connect w))) = (Some True, block)" for block
    using so that pos by (cases ?find) (auto split: prod.splits)
  have missed: "?find = None"
    if "fst (scan_blocks ?ikey ?offs (None, 0) (snd (connect w))) = (Some False, block)" for block
    using so that by (cases ?find) (auto split: prod.splits)
  show ?thesis
  proof (cases rule: generate_cases [of w gen random_seeds k_range m_range c target_instances])
    case (fault e w0)
    then show ?thesis using cf by simp
  next
    case (complete w0)
    then show ?thesis using lt fr(4) by (simp add: hlen_def)
  next
    case (contended w0 block w1)
    have "printed w1 = printed w"
      using scan_blocks_frame [of ?ikey ?offs "(None, 0)" w0] contended(1,3) fr(3) by simp
    moreover have "?find = None"
      using missed [of block] contended(1,3) by simp
    ultimately show ?thesis using contended(4) by simp
  next
    case (exhausted w0 block w1)
    have "printed w1 = printed w"
      using scan_blocks_frame [of ?ikey ?offs "(None, 0)" w0] exhausted(1,3) fr(3) by simp
    moreover have "?find = Some (the ?find) \<and> snd (the ?find) = block"
      using found [of block] exhausted(1,3) by simp
    ultimately show ?thesis using exhausted(5) by (cases "the ?find") simp
  next
    case (reads w0 block w1 seeds r w4)
    have p1: "printed w1 = printed w"
      using scan_blocks_frame [of ?ikey ?offs "(None, 0)" w0] reads(1,3) fr(3) by simp
    let ?w3 = "w1\<lparr>printed := printed w1 @ [GotLock ?ikey block],
                 spawned := spawned w1 @ [generator_args k_range m_range c seeds]\<rparr>"
    have "printed (snd (read_pairs ?ikey (evaluation_key c) seeds
             (stdout_lines (gen (generator_args k_range m_range c seeds))) ?w3)) = printed ?w3"
      using read_pairs_frame by blast
    then have p4: "printed w4 = printed w @ [GotLock ?ikey block]"
      unfolding reads(6) using p1 by simp
    have f: "?find = Some (the ?find) \<and> snd (the ?find) = block"
      using found [of block] reads(1,3) by simp
    have "printed (snd (generate_instances gen random_seeds k_range m_range c target_instances w)) =
        printed w @ [GotLock ?ikey block]"
      unfolding reads(7) using p4 by (cases r) simp_all
    then show ?thesis using f by (cases "the ?find") simp
  qed
qed


text \<open>
  C7. The offsets scanned are \<open>0, B, 2B, \<dots>\<close> below the target, in strictly increasing
  order; for target 45 they are 0, 20, 40. The scan attempts them in that order, the
  attempt on the \<open>j\<close>-th offset coming after \<open>j\<close> failed attempts of 0.05 seconds sleep
  each, and it claims the first offset whose lock is not live at the instant of its
  attempt and stops there: the locks of the later offsets are left as they were. When
  every lock is live at its attempt, no block is claimed. A call of
  \<^verbatim>\<open>generate_instances\<close> that meets no connection fault and finds fewer Instance Records
  than the target scans in this way, and prints the block it claimed.
\<close>

theorem block_scan_order:
  "block_range 0 target = map (\<lambda>i. i * BLOCK_SIZE) [0..<(target + BLOCK_SIZE - 1) div BLOCK_SIZE] \<and>
   sorted_wrt (<) (block_range 0 target) \<and>
   list_all (\<lambda>block. block < target) (block_range 0 target) \<and>
   block_range 0 45 = [0, 20, 40] \<and>
   (case find (\<lambda>(j, block). \<not> live (w\<lparr>clock := clock w + 50 * j\<rparr>) (lock_key block ikey))
           (enumerate 0 (block_range 0 target)) of
      Some (j, block) \<Rightarrow>
        fst (scan_blocks ikey (block_range 0 target) (None, 0) w) = (Some True, block) \<and>
        clock (snd (scan_blocks ikey (block_range 0 target) (None, 0) w)) = clock w + 50 * j \<and>
        map (\<lambda>b. locks (snd (scan_blocks ikey (block_range 0 target) (None, 0) w)) (lock_key b ikey))
            (drop (Suc j) (block_range 0 target)) =
        map (\<lambda>b. locks w (lock_key b ikey)) (drop (Suc j) (block_range 0 target))
    | None \<Rightarrow>
        fst (scan_blocks ikey (block_range 0 target) (None, 0) w) =
          (if target = 0 then (None, 0) else (Some False, last (block_range 0 target)))) \<and>
   (fst (connect w) = None \<and> int (hlen w (instance_key c)) < target_instances \<longrightarrow>
      printed (snd (generate_instances gen random_seeds k_range m_range c target_instances w)) =
        printed w @
          (case find (\<lambda>(j, block). \<not> live (w\<lparr>clock := clock w + 50 * j\<rparr>) (lock_key block (instance_key c)))
                  (enumerate 0 (block_range 0 (nat target_instances))) of
             Some (j, block) \<Rightarrow> [GotLock (instance_key c) block]
           | None \<Rightarrow> []))"
  using scan_order [where target = target and w = w and ikey = ikey]
    generate_claims [where w = w and c = c and target_instances = target_instances and gen = gen
      and random_seeds = random_seeds and k_range = k_range and m_range = m_range]
  by blast

theorem block_scan_order_witness:
  "printed (snd (generate_instances pair_generator [5, 7, 9] 1 1 sample_config 45 locked_world)) =
     [GotLock ''INSTANCE:1:2:3:4:5:6'' 20]"
proof -
  have h: "fst (connect locked_world) = None \<and> int (hlen locked_world (instance_key sample_config)) < 45"
    by (simp add: connect_locked) (simp add: hlen_def locked_world_def empty_world_def)
  have r: "block_range 0 (nat 45) = [0, 20, 40]"
    by (simp add: block_range.simps BLOCK_SIZE_def)
  have k: "lock_key 0 ''INSTANCE:1:2:3:4:5:6'' = ''LOCK:BLOCK0:INSTANCE:1:2:3:4:5:6''"
    "lock_key 20 ''INSTANCE:1:2:3:4:5:6'' = ''LOCK:BLOCK20:INSTANCE:1:2:3:4:5:6''"
    by (simp_all add: lock_key_def str_nat.simps digit_char_def)
  show ?thesis
    using h block_scan_order [where w = locked_world and c = sample_config and target_instances = 45
        and gen = pair_generator and random_seeds = "[5, 7, 9]" and k_range = 1 and m_range = 1]
    unfolding r sample_instance_key
    by (simp add: k live_def locked_world_def empty_world_def enumerate_eq_zip)
qed

end
